theory Spec2Isabelle
  imports Main "HOL-Library.AList" "HOL-Library.Sublist" "HOL-Library.Char_ord"
    "HOL-Library.List_Lexorder"
begin

section \<open>The Kokoro TTS server (voice/kokoro/server.py)\<close>

text \<open>
  The server keeps two module-level variables, the dictionary \<open>pipelines\<close> and the counter
  \<open>nan_recoveries\<close>, and handles one request at a time. Everything it does not implement
  itself (the KPipeline class, numpy, soundfile, ffmpeg, json, os.listdir) is a field of the
  record \<open>world\<close>: a deterministic answer to each external call, given the log of the
  calls made so far. The model threads a \<open>state\<close> through every function and returns
  exceptions as values.

  Modelling decisions: only exceptions deriving from \<open>Exception\<close> are modelled (both
  handlers of the source catch \<open>Exception\<close>); a read from the request stream fails only
  when the length is refused, and writes to the response stream and to stdout succeed; a Python \<open>str\<close> is a list of characters, a
  Python \<open>dict\<close> an association list in insertion order; the messages of the exceptions
  that Python itself raises are those of CPython 3.11.
\<close>

subsection \<open>Python values\<close>

text \<open>An exception: its class name and \<open>str(e)\<close>.\<close>

datatype exn = Exn (exn_class: string) (exn_str: string)

text \<open>
  A floating point value by its IEEE class. A finite value is \<open>mantissa * 2 ^ exponent\<close>.
\<close>

datatype pyfloat = Finite int int | PosInf | NegInf | NaN

type_synonym audio = "pyfloat list"
type_synonym bytes = "char list"

text \<open>What \<open>json.loads\<close> returns. A Python \<open>str\<close> is a list of characters.\<close>

datatype json =
    JNull
  | JBool bool
  | JInt int
  | JFloat pyfloat
  | JStr string
  | JList "json list"
  | JDict "(string \<times> json) list"

text \<open>\<open>np.isnan\<close> on one element, and finiteness (what \<open>np.isfinite\<close> would test).\<close>

fun isnan :: "pyfloat \<Rightarrow> bool" where
  "isnan NaN = True"
| "isnan _ = False"

fun isfinite :: "pyfloat \<Rightarrow> bool" where
  "isfinite (Finite m e) = True"
| "isfinite _ = False"

fun nonfinite :: "pyfloat \<Rightarrow> bool" where
  "nonfinite x = (\<not> isfinite x)"

text \<open>Truth value of a Python object (\<open>not text\<close>).\<close>

fun truthy :: "json \<Rightarrow> bool" where
  "truthy JNull = False"
| "truthy (JBool b) = b"
| "truthy (JInt i) = (i \<noteq> 0)"
| "truthy (JFloat (Finite m e)) = (m \<noteq> 0)"
| "truthy (JFloat _) = True"
| "truthy (JStr s) = (s \<noteq> [])"
| "truthy (JList xs) = (xs \<noteq> [])"
| "truthy (JDict kvs) = (kvs \<noteq> [])"

fun type_name :: "json \<Rightarrow> string" where
  "type_name JNull = ''NoneType''"
| "type_name (JBool b) = ''bool''"
| "type_name (JInt i) = ''int''"
| "type_name (JFloat f) = ''float''"
| "type_name (JStr s) = ''str''"
| "type_name (JList xs) = ''list''"
| "type_name (JDict kvs) = ''dict''"

text \<open>\<open>len(x)\<close>: defined for strings, lists and dictionaries, a TypeError otherwise.\<close>

fun py_len :: "json \<Rightarrow> exn + nat" where
  "py_len (JStr s) = Inr (length s)"
| "py_len (JList xs) = Inr (length xs)"
| "py_len (JDict kvs) = Inr (length kvs)"
| "py_len x = Inl (Exn ''TypeError'' (''object of type '' @ [CHR 0x27] @ type_name x @ [CHR 0x27] @ '' has no len()''))"

text \<open>\<open>body.get(key, default)\<close>: only a dictionary has the method.\<close>

fun dict_get :: "json \<Rightarrow> string \<Rightarrow> json \<Rightarrow> exn + json" where
  "dict_get (JDict kvs) key dflt = Inr (case map_of kvs key of None \<Rightarrow> dflt | Some v \<Rightarrow> v)"
| "dict_get x key dflt =
     Inl (Exn ''AttributeError''
       ([CHR 0x27] @ type_name x @ [CHR 0x27] @ '' object has no attribute '' @ [CHR 0x27] @ ''get'' @ [CHR 0x27]))"

text \<open>
  \<open>text[:60]\<close>, evaluated for the log line before synthesis: a string or a list is sliced,
  a dictionary cannot be indexed by a slice, the other values are not subscriptable.
\<close>

fun slice60 :: "json \<Rightarrow> exn + json" where
  "slice60 (JStr s) = Inr (JStr (take 60 s))"
| "slice60 (JList xs) = Inr (JList (take 60 xs))"
| "slice60 (JDict kvs) = Inl (Exn ''TypeError'' (''unhashable type: '' @ [CHR 0x27] @ ''slice'' @ [CHR 0x27]))"
| "slice60 x = Inl (Exn ''TypeError'' ([CHR 0x27] @ type_name x @ [CHR 0x27] @ '' object is not subscriptable''))"

subsection \<open>Character classes, \<open>int(...)\<close> and the voice pattern\<close>

definition is_lower :: "char \<Rightarrow> bool" where
  "is_lower c = (CHR ''a'' \<le> c \<and> c \<le> CHR ''z'')"

definition is_digit :: "char \<Rightarrow> bool" where
  "is_digit c = (CHR ''0'' \<le> c \<and> c \<le> CHR ''9'')"

definition digit_val :: "char \<Rightarrow> int" where
  "digit_val c = int (of_char c) - 48"

text \<open>
  The characters \<open>int(...)\<close> skips around a number. A header value is decoded as
  ISO-8859-1, so a character is a code point below 256. CPython replaces the non-ASCII
  characters that are Unicode whitespace (here U+0085 and U+00A0) by a space and then skips
  what C's \<open>isspace\<close> accepts; the ASCII separators 0x1C to 0x1F are not skipped.
\<close>

definition is_space :: "char \<Rightarrow> bool" where
  "is_space c = (c \<in> set [CHR 0x09, CHR 0x0A, CHR 0x0B, CHR 0x0C, CHR 0x0D, CHR 0x20,
                           CHR 0x85, CHR 0xA0])"

definition strip :: "string \<Rightarrow> string" where
  "strip s = rev (dropWhile is_space (rev (dropWhile is_space s)))"

text \<open>
  The digits of a decimal literal after its first digit: single underscores may separate
  digits.
\<close>

fun digits :: "int \<Rightarrow> string \<Rightarrow> int option" where
  "digits acc [] = Some acc"
| "digits acc [c] = (if is_digit c then Some (10 * acc + digit_val c) else None)"
| "digits acc (c # d # cs) =
     (if is_digit c then digits (10 * acc + digit_val c) (d # cs)
      else if c = CHR ''_'' \<and> is_digit d then digits acc (d # cs)
      else None)"

definition unsigned :: "string \<Rightarrow> int option" where
  "unsigned s = (case s of [] \<Rightarrow> None
                 | c # cs \<Rightarrow> if is_digit c then digits (digit_val c) cs else None)"

text \<open>
  \<open>int(s)\<close> for a string of ASCII characters: surrounding whitespace, an optional sign,
  decimal digits; None stands for the ValueError. CPython also refuses more than 4300
  digits.
\<close>

definition py_int :: "string \<Rightarrow> int option" where
  "py_int s =
     (let t = strip s in
      if 4300 < length (filter is_digit t) then None
      else case t of
          [] \<Rightarrow> None
        | c # cs \<Rightarrow>
            if c = CHR ''-'' then map_option uminus (unsigned cs)
            else if c = CHR ''+'' then unsigned cs
            else unsigned t)"

definition MAX_TEXT_LENGTH :: nat where
  "MAX_TEXT_LENGTH = 10000"

definition MAX_BODY_SIZE :: int where
  "MAX_BODY_SIZE = 1000000"

definition is_word :: "char \<Rightarrow> bool" where
  "is_word c = (is_lower c \<or> is_digit c \<or> c = CHR ''_'')"

text \<open>
  \<open>VOICE_PATTERN.match(voice)\<close> for \<open>re.compile(r'^[a-z]{2}_[a-z0-9_]+$')\<close>. The greedy
  \<open>+\<close> takes the longest run of class characters; giving characters back never helps,
  since \<open>$\<close> would then stand before a class character. Without re.MULTILINE, \<open>$\<close>
  matches at the end of the string and also just before a newline that ends the string.
\<close>

definition VOICE_PATTERN_match :: "string \<Rightarrow> bool" where
  "VOICE_PATTERN_match v =
     (case v of
        a # b # u # rest \<Rightarrow>
          is_lower a \<and> is_lower b \<and> u = CHR ''_'' \<and> takeWhile is_word rest \<noteq> [] \<and>
          (dropWhile is_word rest = [] \<or> dropWhile is_word rest = [CHR 0x0A])
      | _ \<Rightarrow> False)"

subsection \<open>File names: \<open>str.replace\<close>, \<open>endswith\<close>, \<open>startswith\<close>, \<open>sorted\<close>\<close>

text \<open>
  \<open>s.replace(old, new)\<close>: every occurrence of \<open>old\<close>, found from left to right without
  overlap, is replaced.
\<close>

function str_replace :: "string \<Rightarrow> string \<Rightarrow> string \<Rightarrow> string" where
  "str_replace old new [] = (if old = [] then new else [])"
| "str_replace old new (c # cs) =
     (if old = [] then new @ c # str_replace old new cs
      else if prefix old (c # cs) then new @ str_replace old new (drop (length old) (c # cs))
      else c # str_replace old new cs)"
  by pat_completeness auto
termination
  by (relation "measure (\<lambda>(old, new, s). length s)") auto

definition endswith :: "string \<Rightarrow> string \<Rightarrow> bool" where
  "endswith f suf = suffix suf f"

definition startswith :: "string \<Rightarrow> string \<Rightarrow> bool" where
  "startswith f pre = prefix pre f"

text \<open>
  The list comprehension of both \<open>/voices\<close> handlers, applied to what \<open>os.listdir(VDIR)\<close>
  returned. \<open>sorted\<close> orders strings character by character; \<open>sort\<close> is stable as
  \<open>sorted\<close> is.
\<close>

definition voices_of :: "string list \<Rightarrow> string list" where
  "voices_of files =
     sort (map (\<lambda>f. str_replace ''.pt'' '''' f)
            (filter (\<lambda>f. endswith f ''.pt'' \<and> \<not> startswith f ''.'') files))"

subsection \<open>Pipelines, the log of calls, the outside world and the process state\<close>

text \<open>
  A pipeline object is identified by the position in the log at which it was constructed, so
  two constructions never give the same object; it is bound to a language code.
\<close>

datatype pipeline = Pipeline (pid: nat) (lang: string)

datatype voice = VoiceTensor nat

datatype event =
    ReadBody int                      \<comment> \<open>\<open>self.rfile.read(length)\<close>\<close>
  | GetPipeline string                \<comment> \<open>\<open>get_pipeline(lang_code)\<close> entered\<close>
  | Construct pipeline                \<comment> \<open>\<open>KPipeline(lang_code=..., model=MODEL)\<close> returned\<close>
  | ConstructFailed string            \<comment> \<open>the constructor raised\<close>
  | LoadVoice pipeline string         \<comment> \<open>\<open>pipe.load_voice(name, VDIR)\<close>\<close>
  | WarmupPass pipeline voice         \<comment> \<open>\<open>pipe("warmup", voice=voice)\<close>, iterated\<close>
  | RunInference pipeline json voice  \<comment> \<open>\<open>_run_inference(pipe, text, voice)\<close>\<close>
  | Evict string                      \<comment> \<open>\<open>pipelines.pop(lang_code, None)\<close>\<close>
  | SfWrite audio                     \<comment> \<open>\<open>sf.write(wav_buf, audio, 24000, format='WAV')\<close>\<close>
  | Ffmpeg bytes                      \<comment> \<open>\<open>subprocess.run(['ffmpeg', ...], input=...)\<close>\<close>
  | Listdir                           \<comment> \<open>\<open>os.listdir(VDIR)\<close>\<close>

record completed =
  returncode :: int
  stdout :: bytes
  stderr :: bytes

text \<open>
  Iterating \<open>pipe(text, voice=voice)\<close> to its end gives the results it yielded, each with
  its \<open>audio\<close> (which may be None), and the exception that ended the iteration, if any.
\<close>

type_synonym generated = "audio option list \<times> exn option"

record world =
  ext_json_loads :: "bytes \<Rightarrow> exn + json"
  ext_KPipeline :: "event list \<Rightarrow> string \<Rightarrow> exn option"
  ext_load_voice :: "event list \<Rightarrow> pipeline \<Rightarrow> string \<Rightarrow> exn + voice"
  ext_pipe :: "event list \<Rightarrow> pipeline \<Rightarrow> json \<Rightarrow> voice \<Rightarrow> generated"
  ext_sf_write :: "event list \<Rightarrow> audio \<Rightarrow> exn + bytes"
  ext_ffmpeg :: "event list \<Rightarrow> bytes \<Rightarrow> exn + completed"
  ext_decode :: "bytes \<Rightarrow> exn + string"   \<comment> \<open>\<open>bytes.decode()\<close>: the text, or a UnicodeDecodeError\<close>
  ext_listdir :: "event list \<Rightarrow> exn + string list"

text \<open>
  The module-level variables, the log, and the one local variable that refers to a pipeline
  across calls: \<open>frame_pipe\<close> is the variable \<open>pipe\<close> of the running call of
  \<open>generate_mp3\<close> (None when no call runs or before its first assignment). It
  decides no result of a function; it records which pipeline object the frame still refers
  to.
  The dictionary keeps its insertion order:
  \<open>d[k] = v\<close> is \<open>AList.update\<close>, \<open>d.pop(k, None)\<close> is \<open>AList.delete\<close>, \<open>k in d\<close> is
  \<open>map_of d k \<noteq> None\<close>.
\<close>

record state =
  pipelines :: "(string \<times> pipeline) list"
  nan_recoveries :: int
  trace :: "event list"
  frame_pipe :: "pipeline option"

definition init_state :: state where
  "init_state = \<lparr>pipelines = [], nan_recoveries = 0, trace = [], frame_pipe = None\<rparr>"

definition log :: "event \<Rightarrow> state \<Rightarrow> state" where
  "log e s = s\<lparr>trace := trace s @ [e]\<rparr>"

subsection \<open>\<open>get_pipeline\<close>\<close>

definition warmup_voices :: "(string \<times> string) list" where
  "warmup_voices = [(''a'', ''af_alloy''), (''b'', ''bf_emma''), (''j'', ''jf_alpha'')]"

definition pipe_load_voice :: "world \<Rightarrow> state \<Rightarrow> pipeline \<Rightarrow> string \<Rightarrow> (exn + voice) \<times> state" where
  "pipe_load_voice w s pipe name = (ext_load_voice w (trace s) pipe name, log (LoadVoice pipe name) s)"

text \<open>
  The body of the \<open>try\<close> in \<open>get_pipeline\<close>: resolve the warmup voice, run the throwaway
  pass. The result says whether an exception left the block.
\<close>

definition warmup_try :: "world \<Rightarrow> state \<Rightarrow> pipeline \<Rightarrow> string \<Rightarrow> exn option \<times> state" where
  "warmup_try w s pipe warmup_voice =
     (case pipe_load_voice w s pipe warmup_voice of
        (Inl e, s1) \<Rightarrow> (Some e, s1)
      | (Inr voice, s1) \<Rightarrow>
          (snd (ext_pipe w (trace s1) pipe (JStr ''warmup'') voice), log (WarmupPass pipe voice) s1))"

definition get_pipeline :: "world \<Rightarrow> state \<Rightarrow> string \<Rightarrow> (exn + pipeline) \<times> state" where
  "get_pipeline w s0 lang_code =
     (let s = log (GetPipeline lang_code) s0 in
      case map_of (pipelines s) lang_code of
        Some cached \<Rightarrow> (Inr cached, s)
      | None \<Rightarrow>
          (case ext_KPipeline w (trace s) lang_code of
             Some e \<Rightarrow> (Inl e, log (ConstructFailed lang_code) s)
           | None \<Rightarrow>
               let pipe = Pipeline (length (trace s)) lang_code;
                   s1 = log (Construct pipe) s;
                   warmup_voice = (case map_of warmup_voices lang_code of
                                     Some v \<Rightarrow> v | None \<Rightarrow> ''af_alloy'');
                   s2 = snd (warmup_try w s1 pipe warmup_voice);  \<comment> \<open>\<open>except Exception: pass\<close>\<close>
                   s3 = s2\<lparr>pipelines := AList.update lang_code pipe (pipelines s2)\<rparr>
               in (Inr pipe, s3)))"

subsection \<open>\<open>_run_inference\<close> and \<open>_audio_to_mp3\<close>\<close>

text \<open>\<open>chunks.append(r.audio.numpy())\<close> for each result, in order.\<close>

fun chunks_of :: "audio option list \<Rightarrow> exn + audio list" where
  "chunks_of [] = Inr []"
| "chunks_of (None # rs) =
     Inl (Exn ''AttributeError''
       ([CHR 0x27] @ ''NoneType'' @ [CHR 0x27] @ '' object has no attribute '' @ [CHR 0x27] @ ''numpy'' @ [CHR 0x27]))"
| "chunks_of (Some a # rs) = (case chunks_of rs of Inl e \<Rightarrow> Inl e | Inr cs \<Rightarrow> Inr (a # cs))"

text \<open>What \<open>_run_inference\<close> returns or raises, given what the iteration produced.\<close>

definition inference_result :: "generated \<Rightarrow> exn + audio" where
  "inference_result g =
     (case chunks_of (fst g) of
        Inl e \<Rightarrow> Inl e
      | Inr chunks \<Rightarrow>
          (case snd g of
             Some e \<Rightarrow> Inl e
           | None \<Rightarrow>
               if chunks = [] then Inl (Exn ''RuntimeError'' ''No audio generated'')
               else Inr (concat chunks)))"

definition run_inference :: "world \<Rightarrow> state \<Rightarrow> pipeline \<Rightarrow> json \<Rightarrow> voice \<Rightarrow> (exn + audio) \<times> state" where
  "run_inference w s pipe text voice =
     (inference_result (ext_pipe w (trace s) pipe text voice), log (RunInference pipe text voice) s)"

definition audio_to_mp3 :: "world \<Rightarrow> state \<Rightarrow> audio \<Rightarrow> (exn + bytes) \<times> state" where
  "audio_to_mp3 w s audio =
     (let s1 = log (SfWrite audio) s in
      case ext_sf_write w (trace s) audio of
        Inl e \<Rightarrow> (Inl e, s1)
      | Inr wav \<Rightarrow>
          (let s2 = log (Ffmpeg wav) s1 in
           case ext_ffmpeg w (trace s1) wav of
             Inl e \<Rightarrow> (Inl e, s2)
           | Inr proc \<Rightarrow>
               if returncode proc \<noteq> 0
               then (case ext_decode w (stderr proc) of
                       Inl e \<Rightarrow> (Inl e, s2)
                     | Inr msg \<Rightarrow> (Inl (Exn ''RuntimeError'' (''ffmpeg error: '' @ take 200 msg)), s2))
               else (Inr (stdout proc), s2)))"

subsection \<open>\<open>generate_mp3\<close>\<close>

definition evict :: "string \<Rightarrow> state \<Rightarrow> state" where
  "evict lang_code s = log (Evict lang_code) (s\<lparr>pipelines := AList.delete lang_code (pipelines s)\<rparr>)"

text \<open>
  An assignment to the local variable \<open>pipe\<close> (lines 77 and 89), and the end of the call,
  by return or by exception, after which the frame refers to nothing. (After an exception
  the traceback keeps the frame until the \<open>except\<close> block of \<open>do_POST\<close> ends; that block
  constructs nothing, and \<open>do_POST\<close> ends with it.)
\<close>

definition assign_pipe :: "pipeline \<Rightarrow> state \<Rightarrow> state" where
  "assign_pipe p s = s\<lparr>frame_pipe := Some p\<rparr>"

definition leave_frame :: "'a \<times> state \<Rightarrow> 'a \<times> state" where
  "leave_frame r = (fst r, (snd r)\<lparr>frame_pipe := None\<rparr>)"

text \<open>The statements of \<open>generate_mp3\<close>, line 76 to line 100.\<close>

definition generate_mp3_body :: "world \<Rightarrow> state \<Rightarrow> json \<Rightarrow> string \<Rightarrow> (exn + bytes) \<times> state" where
  "generate_mp3_body w s text voice_name =
     (case voice_name of
        [] \<Rightarrow> (Inl (Exn ''IndexError'' ''string index out of range''), s)
      | c # _ \<Rightarrow>
          (let lang_code = [c] in
           case get_pipeline w s lang_code of
             (Inl e, s1) \<Rightarrow> (Inl e, s1)
           | (Inr pipe, s1) \<Rightarrow>
          (case pipe_load_voice w (assign_pipe pipe s1) pipe voice_name of
             (Inl e, s2) \<Rightarrow> (Inl e, s2)
           | (Inr voice, s2) \<Rightarrow>
          (case run_inference w s2 pipe text voice of
             (Inl e, s3) \<Rightarrow> (Inl e, s3)
           | (Inr audio, s3) \<Rightarrow>
               if \<not> list_ex isnan audio then audio_to_mp3 w s3 audio
               else
          (case get_pipeline w (evict lang_code s3) lang_code of
             (Inl e, s4) \<Rightarrow> (Inl e, s4)
           | (Inr pipe', s4) \<Rightarrow>
          (case pipe_load_voice w (assign_pipe pipe' s4) pipe' voice_name of
             (Inl e, s5) \<Rightarrow> (Inl e, s5)
           | (Inr voice', s5) \<Rightarrow>
          (case run_inference w s5 pipe' text voice' of
             (Inl e, s6) \<Rightarrow> (Inl e, s6)
           | (Inr audio', s6) \<Rightarrow>
               if list_ex isnan audio'
               then (Inl (Exn ''RuntimeError'' ''NaN in audio output after pipeline reload''), s6)
               else audio_to_mp3 w (s6\<lparr>nan_recoveries := nan_recoveries s6 + 1\<rparr>) audio')))))))"

definition generate_mp3 :: "world \<Rightarrow> state \<Rightarrow> json \<Rightarrow> string \<Rightarrow> (exn + bytes) \<times> state" where
  "generate_mp3 w s text voice_name = leave_frame (generate_mp3_body w s text voice_name)"

subsection \<open>The request handler\<close>

record request =
  path :: string
  content_length :: "string option"   \<comment> \<open>the Content-Length header, if present\<close>
  rfile :: bytes                       \<comment> \<open>the bytes the client sends after the headers\<close>

datatype response =
    JsonResponse nat json   \<comment> \<open>\<open>self._json(status, data)\<close>\<close>
  | AudioResponse bytes     \<comment> \<open>200, Content-Type audio/mpeg\<close>

definition PORT :: int where
  "PORT = 7880"

definition json_error :: "nat \<Rightarrow> string \<Rightarrow> response" where
  "json_error status msg = JsonResponse status (JDict [(''error'', JStr msg)])"

text \<open>\<open>int(self.headers.get('Content-Length', 0))\<close>; None is the 400 branch.\<close>

definition header_length :: "string option \<Rightarrow> int option" where
  "header_length h = (case h of None \<Rightarrow> Some 0 | Some v \<Rightarrow> py_int v)"

text \<open>
  \<open>self.rfile.read(length)\<close> on the buffered reader of the connection: \<open>-1\<close> reads to the
  end of the stream, a smaller length is a ValueError.
\<close>

definition rfile_read :: "request \<Rightarrow> int \<Rightarrow> exn + bytes" where
  "rfile_read req n =
     (if n < - 1 then Inl (Exn ''ValueError'' ''read length must be non-negative or -1'')
      else if n = - 1 then Inr (rfile req)
      else Inr (take (nat n) (rfile req)))"

text \<open>
  Lines 121 to 146 of \<open>do_POST\<close>: the checks on the decoded body, then synthesis. An
  exception goes to the handler's outer \<open>except Exception\<close>.
\<close>

definition tts_body :: "world \<Rightarrow> state \<Rightarrow> json \<Rightarrow> (exn + response) \<times> state" where
  "tts_body w s body =
     (case dict_get body ''text'' (JStr '''') of
        Inl e \<Rightarrow> (Inl e, s)
      | Inr text \<Rightarrow>
     (case dict_get body ''voice'' (JStr ''af_heart'') of
        Inl e \<Rightarrow> (Inl e, s)
      | Inr voice \<Rightarrow>
          if \<not> truthy text then (Inr (json_error 400 ''No text provided''), s)
          else
     (case py_len text of
        Inl e \<Rightarrow> (Inl e, s)
      | Inr n \<Rightarrow>
          if MAX_TEXT_LENGTH < n then (Inr (json_error 400 ''Text too long (max 10000 chars)''), s)
          else
     (case voice of
        JStr v \<Rightarrow>
          if \<not> VOICE_PATTERN_match v then (Inr (json_error 400 (''Invalid voice name: '' @ v)), s)
          else
            (case slice60 text of
               Inl e \<Rightarrow> (Inl e, s)
             | Inr shown \<Rightarrow>
                 (case generate_mp3 w s text v of
                    (Inl e, s') \<Rightarrow> (Inl e, s')
                  | (Inr mp3_bytes, s') \<Rightarrow> (Inr (AudioResponse mp3_bytes), s')))
      | other \<Rightarrow>
          (Inl (Exn ''TypeError''
             (''expected string or bytes-like object, got '' @ [CHR 0x27] @ type_name other @ [CHR 0x27])), s)))))"

definition list_voices :: "world \<Rightarrow> state \<Rightarrow> (exn + response) \<times> state" where
  "list_voices w s =
     (case ext_listdir w (trace s) of
        Inl e \<Rightarrow> (Inl e, log Listdir s)
      | Inr files \<Rightarrow>
          (Inr (JsonResponse 200 (JDict [(''voices'', JList (map JStr (voices_of files)))])),
           log Listdir s))"

definition do_POST :: "world \<Rightarrow> state \<Rightarrow> request \<Rightarrow> response \<times> state" where
  "do_POST w s req =
     (if path req = ''/tts'' then
        (case header_length (content_length req) of
           None \<Rightarrow> (json_error 400 ''Invalid Content-Length'', s)
         | Some len \<Rightarrow>
             if MAX_BODY_SIZE < len then (json_error 413 ''Request too large'', s)
             else
               (let s1 = log (ReadBody len) s in
                case rfile_read req len of
                  Inl e \<Rightarrow> (json_error 500 (exn_str e), s1)
                | Inr data \<Rightarrow>
                (case ext_json_loads w data of
                  Inl e \<Rightarrow>
                    if exn_class e = ''JSONDecodeError'' then (json_error 400 ''Invalid JSON'', s1)
                    else (json_error 500 (exn_str e), s1)
                | Inr body \<Rightarrow>
                    (case tts_body w s1 body of
                       (Inl e, s2) \<Rightarrow> (json_error 500 (exn_str e), s2)
                     | (Inr resp, s2) \<Rightarrow> (resp, s2)))))
      else if path req = ''/voices'' then
        (case list_voices w s of
           (Inl e, s1) \<Rightarrow> (json_error 500 (exn_str e), s1)
         | (Inr resp, s1) \<Rightarrow> (resp, s1))
      else (json_error 404 ''Not found'', s))"

text \<open>\<open>do_GET\<close> has no \<open>try\<close>: an exception of \<open>os.listdir\<close> leaves the handler.\<close>

definition do_GET :: "world \<Rightarrow> state \<Rightarrow> request \<Rightarrow> (exn + response) \<times> state" where
  "do_GET w s req =
     (if path req = ''/health'' then
        (Inr (JsonResponse 200 (JDict
           [(''status'', JStr ''ok''),
            (''model'', JStr ''kokoro-v1_0''),
            (''pipelines_loaded'', JList (map (\<lambda>kv. JStr (fst kv)) (pipelines s))),
            (''nan_recoveries'', JInt (nan_recoveries s)),
            (''port'', JInt PORT)])), s)
      else if path req = ''/voices'' then list_voices w s
      else (Inr (json_error 404 ''Not found''), s))"

text \<open>
  The states the process can be in between two requests: \<open>get_pipeline('a')\<close> returned at
  startup (an exception there ends the process before it serves), then any requests.
\<close>

inductive reachable :: "state \<Rightarrow> bool" where
  startup: "get_pipeline w init_state ''a'' = (Inr p, s) \<Longrightarrow> reachable s"
| post: "reachable s \<Longrightarrow> reachable (snd (do_POST w s req))"
| get: "reachable s \<Longrightarrow> reachable (snd (do_GET w s req))"

subsection \<open>Observations on a run\<close>

text \<open>
  One synthesis attempt of \<open>generate_mp3\<close>: the three statements of lines 77 to 80, which
  lines 89 to 92 repeat after the eviction. It returns the pipeline used and the audio.
  An exception leaves the attempt with the state in which it was raised.
\<close>

definition attempt :: "world \<Rightarrow> state \<Rightarrow> string \<Rightarrow> json \<Rightarrow> string \<Rightarrow> (exn + pipeline \<times> audio) \<times> state" where
  "attempt w s lang_code text voice_name =
     (case get_pipeline w s lang_code of
        (Inl e, s1) \<Rightarrow> (Inl e, s1)
      | (Inr pipe, s1) \<Rightarrow>
     (case pipe_load_voice w (assign_pipe pipe s1) pipe voice_name of
        (Inl e, s2) \<Rightarrow> (Inl e, s2)
      | (Inr voice, s2) \<Rightarrow>
     (case run_inference w s2 pipe text voice of
        (Inl e, s3) \<Rightarrow> (Inl e, s3)
      | (Inr audio, s3) \<Rightarrow> (Inr (pipe, audio), s3))))"

text \<open>
  The request passes every check of \<open>do_POST\<close> and reaches \<open>generate_mp3(text, v)\<close>, after
  reading \<open>n\<close> bytes of body.
\<close>

definition accepted :: "world \<Rightarrow> request \<Rightarrow> int \<Rightarrow> json \<Rightarrow> string \<Rightarrow> bool" where
  "accepted w req n text v =
     (path req = ''/tts'' \<and> header_length (content_length req) = Some n \<and> n \<le> MAX_BODY_SIZE \<and>
      (case rfile_read req n of
         Inl e \<Rightarrow> False
       | Inr data \<Rightarrow>
           (case ext_json_loads w data of
              Inl e \<Rightarrow> False
            | Inr body \<Rightarrow> dict_get body ''text'' (JStr '''') = Inr text \<and>
                          dict_get body ''voice'' (JStr ''af_heart'') = Inr (JStr v))) \<and>
      truthy text \<and>
      (case py_len text of Inl e \<Rightarrow> False | Inr k \<Rightarrow> k \<le> MAX_TEXT_LENGTH) \<and>
      VOICE_PATTERN_match v \<and>
      (case slice60 text of Inl e \<Rightarrow> False | Inr shown \<Rightarrow> True))"

fun is_inference :: "event \<Rightarrow> bool" where
  "is_inference (RunInference p t v) = True"
| "is_inference _ = False"

text \<open>The number of calls of \<open>_run_inference\<close> in a log.\<close>

definition inference_calls :: "event list \<Rightarrow> nat" where
  "inference_calls tr = length (filter is_inference tr)"

text \<open>
  The pipelines the cache owns after a log: those constructed by \<open>get_pipeline\<close> (which
  stores each of them once its warmup is over) whose cache entry has not been evicted since.
  This is bookkeeping of the cache, not the lifetime of the objects: an evicted pipeline
  exists for as long as \<open>frame_pipe\<close> refers to it.
\<close>

fun owned_step :: "pipeline list \<Rightarrow> event \<Rightarrow> pipeline list" where
  "owned_step own (Construct p) = own @ [p]"
| "owned_step own (Evict c) = filter (\<lambda>q. lang q \<noteq> c) own"
| "owned_step own e = own"

text \<open>
  The pipeline objects that the cache or the frame of \<open>generate_mp3\<close> refers to, in a
  state outside a call of \<open>get_pipeline\<close>.
\<close>

definition referenced :: "state \<Rightarrow> pipeline list" where
  "referenced s =
     remdups (map snd (pipelines s) @ (case frame_pipe s of None \<Rightarrow> [] | Some p \<Rightarrow> [p]))"

definition owned_at :: "event list \<Rightarrow> pipeline list" where
  "owned_at tr = foldl owned_step [] tr"

text \<open>
  Events that neither enter \<open>get_pipeline\<close>, call the constructor, evict a pipeline nor
  run an inference: the steps of a warmup and of the encoding.
\<close>

fun quiet :: "event \<Rightarrow> bool" where
  "quiet (GetPipeline c) = False"
| "quiet (Construct p) = False"
| "quiet (ConstructFailed c) = False"
| "quiet (Evict c) = False"
| "quiet (RunInference p t v) = False"
| "quiet e = True"

fun is_evict :: "event \<Rightarrow> bool" where
  "is_evict (Evict c) = True"
| "is_evict e = False"

text \<open>What a request added to the log.\<close>

definition new_events :: "state \<Rightarrow> state \<Rightarrow> event list" where
  "new_events s s' = drop (length (trace s)) (trace s')"

text \<open>
  The end of the \<open>/tts\<close> branch: the MP3 bytes go out with status 200, an exception
  becomes the 500 JSON error of the outer \<open>except\<close>.
\<close>

definition respond :: "(exn + bytes) \<times> state \<Rightarrow> response \<times> state" where
  "respond r =
     (case r of
        (Inl e, s) \<Rightarrow> (json_error 500 (exn_str e), s)
      | (Inr mp3_bytes, s) \<Rightarrow> (AudioResponse mp3_bytes, s))"

text \<open>Events that leave the pipelines owned by the cache as they are.\<close>

fun neutral :: "event \<Rightarrow> bool" where
  "neutral (Construct p) = False"
| "neutral (Evict c) = False"
| "neutral e = True"

text \<open>
  At every point of a log, the pipelines owned by the cache have pairwise different language
  codes.
\<close>

definition one_per_code :: "event list \<Rightarrow> bool" where
  "one_per_code tr = (\<forall>pre. prefix pre tr \<longrightarrow> distinct (map lang (owned_at pre)))"

text \<open>
  The cache agrees with the log: it holds exactly the pipelines it owns, in order of
  construction, each under its own language code and constructed in the past, with no key
  twice.
\<close>

definition consistent :: "state \<Rightarrow> bool" where
  "consistent s =
     (map snd (pipelines s) = owned_at (trace s) \<and>
      list_all (\<lambda>kv. lang (snd kv) = fst kv \<and> pid (snd kv) < length (trace s)) (pipelines s) \<and>
      distinct (map fst (pipelines s)) \<and>
      one_per_code (trace s))"

text \<open>
  The events that select, construct or evict a pipeline do so for the language code \<open>lc\<close>.
\<close>

fun uses_code :: "string \<Rightarrow> event \<Rightarrow> bool" where
  "uses_code lc (GetPipeline c) = (c = lc)"
| "uses_code lc (Construct p) = (lang p = lc)"
| "uses_code lc (ConstructFailed c) = (c = lc)"
| "uses_code lc (Evict c) = (c = lc)"
| "uses_code lc e = True"

fun is_str :: "json \<Rightarrow> bool" where
  "is_str (JStr s) = True"
| "is_str x = False"

text \<open>
  The pattern as the specification reads it: two lower-case letters, an underscore, one or
  more of \<open>[a-z0-9_]\<close>, and nothing else.
\<close>

definition voice_wellformed :: "string \<Rightarrow> bool" where
  "voice_wellformed v =
     (case v of
        a # b # u # rest \<Rightarrow>
          is_lower a \<and> is_lower b \<and> u = CHR ''_'' \<and> rest \<noteq> [] \<and> list_all is_word rest
      | _ \<Rightarrow> False)"

text \<open>A file name with exactly its final \<open>.pt\<close> removed.\<close>

definition strip_suffix_pt :: "string \<Rightarrow> string" where
  "strip_suffix_pt f = take (length f - 3) f"

subsection \<open>Concrete worlds and requests\<close>

text \<open>
  A world in which every external call succeeds: \<open>json.loads\<close> returns \<open>body\<close>, and the
  \<open>k\<close>-th call of \<open>_run_inference\<close> (counted over the log) makes the pipeline produce
  \<open>outs k\<close>.
\<close>

definition scripted :: "json \<Rightarrow> (nat \<Rightarrow> generated) \<Rightarrow> world" where
  "scripted body outs =
     \<lparr>ext_json_loads = (\<lambda>b. Inr body),
      ext_KPipeline = (\<lambda>tr c. None),
      ext_load_voice = (\<lambda>tr p name. Inr (VoiceTensor 0)),
      ext_pipe = (\<lambda>tr p text v. outs (inference_calls tr)),
      ext_sf_write = (\<lambda>tr a. Inr ''RIFF''),
      ext_ffmpeg = (\<lambda>tr wav. Inr \<lparr>returncode = 0, stdout = ''ID3'', stderr = ''''\<rparr>),
      ext_decode = (\<lambda>b. Inr b),
      ext_listdir = (\<lambda>tr. Inr [])\<rparr>"

definition body_hi :: json where
  "body_hi = JDict [(''text'', JStr ''hi''), (''voice'', JStr ''af_heart'')]"

definition clean :: generated where
  "clean = ([Some [Finite 1 0, Finite (- 3) (- 2)]], None)"

definition always_clean :: "nat \<Rightarrow> generated" where
  "always_clean k = clean"

text \<open>
  The bytes of a request body are not interpreted here: what they decode to is the answer
  of the world's \<open>json.loads\<close>.
\<close>

definition tts_request :: request where
  "tts_request = \<lparr>path = ''/tts'', content_length = Some ''36'', rfile = replicate 36 (CHR ''.'')\<rparr>"

text \<open>Scripts for the pipeline's outputs: what the \<open>k\<close>-th inference produces.\<close>

definition nan_then_clean :: "nat \<Rightarrow> generated" where
  "nan_then_clean k = (if k = 0 then ([Some [Finite 1 0, NaN]], None) else clean)"

definition always_nan :: "nat \<Rightarrow> generated" where
  "always_nan k = ([Some [Finite 1 0, NaN]], None)"

definition inf_then_clean :: "nat \<Rightarrow> generated" where
  "inf_then_clean k = (if k = 0 then ([Some [Finite 1 0, PosInf]], None) else clean)"

definition nan_then_inf :: "nat \<Rightarrow> generated" where
  "nan_then_inf k = (if k = 0 then ([Some [Finite 1 0, NaN]], None) else ([Some [PosInf]], None))"

text \<open>The state after a startup in which everything succeeds.\<close>

definition started :: state where
  "started = snd (get_pipeline (scripted body_hi always_clean) init_state ''a'')"

text \<open>A world whose warmup pass raises, and whose real inference is clean.\<close>

definition failing_warmup :: world where
  "failing_warmup =
     (scripted body_hi always_clean)
       \<lparr>ext_pipe := (\<lambda>tr p text v.
           if text = JStr ''warmup'' then ([], Some (Exn ''RuntimeError'' ''warmup failed''))
           else clean)\<rparr>"

definition body_emma :: json where
  "body_emma = JDict [(''text'', JStr ''hi''), (''voice'', JStr ''bf_emma'')]"

definition body_list_text :: json where
  "body_list_text = JDict [(''text'', JList [JStr ''hi'']), (''voice'', JStr ''af_heart'')]"

definition body_number_text :: json where
  "body_number_text = JDict [(''text'', JInt 5), (''voice'', JStr ''af_heart'')]"

definition body_newline_voice :: json where
  "body_newline_voice = JDict [(''text'', JStr ''hi''), (''voice'', JStr (''af_heart'' @ [CHR 0x0A]))]"

definition voices_request :: request where
  "voices_request = \<lparr>path = ''/voices'', content_length = None, rfile = []\<rparr>"

definition listing :: "string list \<Rightarrow> world" where
  "listing files = (scripted body_hi always_clean)\<lparr>ext_listdir := (\<lambda>tr. Inr files)\<rparr>"

text \<open>The state after one recovered request.\<close>

definition recovered :: state where
  "recovered = snd (do_POST (scripted body_hi nan_then_clean) started tts_request)"

text \<open>
  The state of a recovery in which the call of \<open>get_pipeline\<close> on line 89 has returned and
  its result is not yet assigned to \<open>pipe\<close>.
\<close>

definition mid_recovery :: state where
  "mid_recovery =
     snd (get_pipeline (scripted body_hi nan_then_clean)
            (evict ''a'' (snd (attempt (scripted body_hi nan_then_clean)
                                 (log (ReadBody 36) started) ''a'' (JStr ''hi'') ''af_heart'')))
            ''a'')"

text \<open>Requests with other Content-Length headers.\<close>

definition length_request :: "string \<Rightarrow> request" where
  "length_request h = \<lparr>path = ''/tts'', content_length = Some h, rfile = replicate 36 (CHR ''.'')\<rparr>"

definition huge_request :: request where
  "huge_request = \<lparr>path = ''/tts'', content_length = Some ''1000001'', rfile = []\<rparr>"

section \<open>Evaluation rules\<close>

lemmas char_class_defs = is_lower_def is_digit_def is_word_def is_space_def digit_val_def

lemmas py_int_defs = py_int_def strip_def unsigned_def char_class_defs

lemmas world_defs = scripted_def body_hi_def clean_def tts_request_def nan_then_clean_def
  always_nan_def inf_then_clean_def nan_then_inf_def always_clean_def

lemmas run_defs = get_pipeline_def warmup_try_def pipe_load_voice_def run_inference_def
  inference_result_def audio_to_mp3_def generate_mp3_def generate_mp3_body_def assign_pipe_def
  leave_frame_def attempt_def evict_def log_def
  tts_body_def do_POST_def header_length_def rfile_read_def json_error_def warmup_voices_def
  inference_calls_def new_events_def accepted_def MAX_BODY_SIZE_def MAX_TEXT_LENGTH_def
  VOICE_PATTERN_match_def

lemma started_eq:
  "started =
     \<lparr>pipelines = [(''a'', Pipeline 1 ''a'')], nan_recoveries = 0,
      trace = [GetPipeline ''a'', Construct (Pipeline 1 ''a''),
               LoadVoice (Pipeline 1 ''a'') ''af_alloy'',
               WarmupPass (Pipeline 1 ''a'') (VoiceTensor 0)],
      frame_pipe = None\<rparr>"
  by (simp add: started_def init_state_def world_defs run_defs Let_def)

lemma reachable_started: "reachable started"
proof -
  have "get_pipeline (scripted body_hi always_clean) init_state ''a'' = (Inr (Pipeline 1 ''a''), started)"
    by (simp add: started_def init_state_def world_defs run_defs Let_def)
  then show ?thesis by (rule reachable.startup)
qed

section \<open>How each function changes the state\<close>

lemma log_simps [simp]:
  "trace (log e s) = trace s @ [e]"
  "pipelines (log e s) = pipelines s"
  "nan_recoveries (log e s) = nan_recoveries s"
  "frame_pipe (log e s) = frame_pipe s"
  by (simp_all add: log_def)

lemma assign_pipe_simps [simp]:
  "trace (assign_pipe p s) = trace s"
  "pipelines (assign_pipe p s) = pipelines s"
  "nan_recoveries (assign_pipe p s) = nan_recoveries s"
  "frame_pipe (assign_pipe p s) = Some p"
  by (simp_all add: assign_pipe_def)

lemma leave_frame_simps [simp]:
  "fst (leave_frame r) = fst r"
  "trace (snd (leave_frame r)) = trace (snd r)"
  "pipelines (snd (leave_frame r)) = pipelines (snd r)"
  "nan_recoveries (snd (leave_frame r)) = nan_recoveries (snd r)"
  "frame_pipe (snd (leave_frame r)) = None"
  by (simp_all add: leave_frame_def)

lemma pipe_load_voice_snd [simp]: "snd (pipe_load_voice w s p name) = log (LoadVoice p name) s"
  by (simp add: pipe_load_voice_def)

lemma run_inference_snd [simp]: "snd (run_inference w s p t v) = log (RunInference p t v) s"
  by (simp add: run_inference_def)

lemma warmup_try_fields:
  "\<exists>evs. trace (snd (warmup_try w s p wv)) = trace s @ evs \<and> list_all quiet evs \<and>
     pipelines (snd (warmup_try w s p wv)) = pipelines s \<and>
     nan_recoveries (snd (warmup_try w s p wv)) = nan_recoveries s"
  by (auto simp: warmup_try_def pipe_load_voice_def split: sum.splits)

lemma get_pipeline_cached:
  "map_of (pipelines s) lc = Some p \<Longrightarrow> get_pipeline w s lc = (Inr p, log (GetPipeline lc) s)"
  by (simp add: get_pipeline_def)

lemma get_pipeline_failed:
  "map_of (pipelines s) lc = None \<Longrightarrow> ext_KPipeline w (trace s @ [GetPipeline lc]) lc = Some e \<Longrightarrow>
   get_pipeline w s lc = (Inl e, log (ConstructFailed lc) (log (GetPipeline lc) s))"
  by (simp add: get_pipeline_def)

lemma update_fresh: "map_of al k = None \<Longrightarrow> AList.update k v al = al @ [(k, v)]"
  by (induction al) (auto split: if_splits)

lemma get_pipeline_new:
  assumes "map_of (pipelines s) lc = None" "ext_KPipeline w (trace s @ [GetPipeline lc]) lc = None"
  shows "\<exists>s' ws. get_pipeline w s lc = (Inr (Pipeline (Suc (length (trace s))) lc), s') \<and>
           trace s' = trace s @ GetPipeline lc # Construct (Pipeline (Suc (length (trace s))) lc) # ws \<and>
           list_all quiet ws \<and>
           pipelines s' = pipelines s @ [(lc, Pipeline (Suc (length (trace s))) lc)] \<and>
           nan_recoveries s' = nan_recoveries s"
proof -
  let ?p = "Pipeline (Suc (length (trace s))) lc"
  let ?s1 = "log (Construct ?p) (log (GetPipeline lc) s)"
  let ?wv = "case map_of warmup_voices lc of Some v \<Rightarrow> v | None \<Rightarrow> ''af_alloy''"
  obtain evs where evs: "trace (snd (warmup_try w ?s1 ?p ?wv)) = trace ?s1 @ evs" "list_all quiet evs"
     "pipelines (snd (warmup_try w ?s1 ?p ?wv)) = pipelines ?s1"
     "nan_recoveries (snd (warmup_try w ?s1 ?p ?wv)) = nan_recoveries ?s1"
    using warmup_try_fields [of w ?s1 ?p ?wv] by blast
  show ?thesis using assms evs
    by (simp add: get_pipeline_def Let_def update_fresh)
qed

lemma audio_to_mp3_fields:
  "\<exists>evs. trace (snd (audio_to_mp3 w s a)) = trace s @ SfWrite a # evs \<and> list_all quiet evs \<and>
     pipelines (snd (audio_to_mp3 w s a)) = pipelines s \<and>
     nan_recoveries (snd (audio_to_mp3 w s a)) = nan_recoveries s"
  by (auto simp: audio_to_mp3_def Let_def split: sum.splits)

lemma evict_simps [simp]:
  "trace (evict lc s) = trace s @ [Evict lc]"
  "pipelines (evict lc s) = AList.delete lc (pipelines s)"
  "nan_recoveries (evict lc s) = nan_recoveries s"
  by (simp_all add: evict_def)

lemma generate_mp3_body_attempts:
  "generate_mp3_body w s text (c # r) =
     (case attempt w s [c] text (c # r) of
        (Inl e, s1) \<Rightarrow> (Inl e, s1)
      | (Inr (p, a), s1) \<Rightarrow>
          if \<not> list_ex isnan a then audio_to_mp3 w s1 a
          else (case attempt w (evict [c] s1) [c] text (c # r) of
                  (Inl e, s2) \<Rightarrow> (Inl e, s2)
                | (Inr (p', a'), s2) \<Rightarrow>
                    if list_ex isnan a'
                    then (Inl (Exn ''RuntimeError'' ''NaN in audio output after pipeline reload''), s2)
                    else audio_to_mp3 w (s2\<lparr>nan_recoveries := nan_recoveries s2 + 1\<rparr>) a'))"
  by (auto simp: generate_mp3_body_def attempt_def Let_def split: prod.splits sum.splits)

lemma generate_mp3_attempts:
  "generate_mp3 w s text (c # r) =
     leave_frame
     (case attempt w s [c] text (c # r) of
        (Inl e, s1) \<Rightarrow> (Inl e, s1)
      | (Inr (p, a), s1) \<Rightarrow>
          if \<not> list_ex isnan a then audio_to_mp3 w s1 a
          else (case attempt w (evict [c] s1) [c] text (c # r) of
                  (Inl e, s2) \<Rightarrow> (Inl e, s2)
                | (Inr (p', a'), s2) \<Rightarrow>
                    if list_ex isnan a'
                    then (Inl (Exn ''RuntimeError'' ''NaN in audio output after pipeline reload''), s2)
                    else audio_to_mp3 w (s2\<lparr>nan_recoveries := nan_recoveries s2 + 1\<rparr>) a'))"
  by (simp only: generate_mp3_def generate_mp3_body_attempts)

lemma do_POST_accepted:
  assumes "accepted w req n text v"
  shows "do_POST w s req = respond (generate_mp3 w (log (ReadBody n) s) text v)"
  using assms
  by (auto simp: accepted_def do_POST_def tts_body_def respond_def Let_def
           split: sum.splits prod.splits json.splits)

lemma VOICE_PATTERN_match_Cons: "VOICE_PATTERN_match v \<Longrightarrow> \<exists>c r. v = c # r"
  by (cases v) (auto simp: VOICE_PATTERN_match_def)

lemma attempt_ok:
  assumes "attempt w s lc t v = (Inr (p, a), s')"
  shows "nan_recoveries s' = nan_recoveries s \<and> map_of (pipelines s') lc = Some p \<and>
     (\<exists>evs vo. trace s' = trace s @ GetPipeline lc # evs @ [LoadVoice p v, RunInference p t vo] \<and>
        (case map_of (pipelines s) lc of
           Some q \<Rightarrow> q = p \<and> evs = [] \<and> pipelines s' = pipelines s
         | None \<Rightarrow> p = Pipeline (Suc (length (trace s))) lc \<and>
                    pipelines s' = pipelines s @ [(lc, p)] \<and>
                    (\<exists>ws. evs = Construct p # ws \<and> list_all quiet ws)))"
proof (cases "map_of (pipelines s) lc")
  case (Some q)
  with assms show ?thesis
    by (auto simp: attempt_def get_pipeline_cached pipe_load_voice_def run_inference_def
             split: sum.splits)
next
  case None
  show ?thesis
  proof (cases "ext_KPipeline w (trace s @ [GetPipeline lc]) lc")
    case (Some e)
    with None assms show ?thesis
      by (simp add: attempt_def get_pipeline_failed)
  next
    case None2: None
    from get_pipeline_new [OF None None2] obtain s1 ws where
      g: "get_pipeline w s lc = (Inr (Pipeline (Suc (length (trace s))) lc), s1)"
      and tr: "trace s1 = trace s @ GetPipeline lc # Construct (Pipeline (Suc (length (trace s))) lc) # ws"
      and q: "list_all quiet ws"
      and pl: "pipelines s1 = pipelines s @ [(lc, Pipeline (Suc (length (trace s))) lc)]"
      and nr: "nan_recoveries s1 = nan_recoveries s"
      by blast
    from assms g tr q pl nr None show ?thesis
      by (auto simp: attempt_def pipe_load_voice_def run_inference_def map_add_def split: sum.splits)
  qed
qed

section \<open>The cache invariant\<close>

lemma quiet_neutral: "quiet e \<Longrightarrow> neutral e"
  by (cases e) auto

lemma list_all_quiet_neutral: "list_all quiet evs \<Longrightarrow> list_all neutral evs"
  by (induction evs) (auto simp: quiet_neutral)

lemma owned_at_snoc [simp]: "owned_at (tr @ [e]) = owned_step (owned_at tr) e"
  by (simp add: owned_at_def)

lemma owned_step_neutral: "neutral e \<Longrightarrow> owned_step l e = l"
  by (cases e) auto

lemma owned_at_append_neutral: "list_all neutral evs \<Longrightarrow> owned_at (tr @ evs) = owned_at tr"
proof (induction evs rule: rev_induct)
  case Nil
  then show ?case by simp
next
  case (snoc e evs)
  then have "owned_at ((tr @ evs) @ [e]) = owned_at tr"
    by (simp only: owned_at_snoc) (simp add: owned_step_neutral)
  then show ?case by simp
qed

lemma one_per_code_Nil [simp]: "one_per_code []"
  by (simp add: one_per_code_def owned_at_def)

lemma one_per_code_snoc:
  "one_per_code (tr @ [e]) \<longleftrightarrow> one_per_code tr \<and> distinct (map lang (owned_at (tr @ [e])))"
  unfolding one_per_code_def by (auto simp: prefix_snoc)

lemma one_per_code_append_neutral:
  "list_all neutral evs \<Longrightarrow> one_per_code (tr @ evs) \<longleftrightarrow> one_per_code tr"
proof (induction evs rule: rev_induct)
  case Nil
  then show ?case by simp
next
  case (snoc e evs)
  have "one_per_code ((tr @ evs) @ [e]) \<longleftrightarrow>
        one_per_code (tr @ evs) \<and> distinct (map lang (owned_at ((tr @ evs) @ [e])))"
    by (rule one_per_code_snoc)
  moreover have "owned_at ((tr @ evs) @ [e]) = owned_at tr"
    using snoc.prems owned_at_append_neutral [of "evs @ [e]" tr] by simp
  moreover have "one_per_code tr \<Longrightarrow> distinct (map lang (owned_at tr))"
    by (simp add: one_per_code_def)
  ultimately show ?case using snoc by auto
qed

lemma one_per_code_last: "one_per_code tr \<Longrightarrow> distinct (map lang (owned_at tr))"
  by (simp add: one_per_code_def)

lemma consistent_neutral:
  assumes "consistent s" "trace s' = trace s @ evs" "list_all neutral evs"
    "pipelines s' = pipelines s"
  shows "consistent s'"
  using assms
  by (auto simp: consistent_def owned_at_append_neutral one_per_code_append_neutral list_all_iff)

lemma lang_keys:
  "list_all (\<lambda>kv. lang (snd kv) = fst kv) al \<Longrightarrow> map lang (map snd al) = map fst al"
  by (induction al) auto

lemma consistent_lang:
  "consistent s \<Longrightarrow> list_all (\<lambda>kv. lang (snd kv) = fst kv) (pipelines s)"
  by (auto simp: consistent_def list_all_iff)

lemma consistent_keys: "consistent s \<Longrightarrow> map lang (owned_at (trace s)) = map fst (pipelines s)"
proof -
  assume c: "consistent s"
  have "map lang (map snd (pipelines s)) = map fst (pipelines s)"
    by (rule lang_keys [OF consistent_lang [OF c]])
  with c show ?thesis by (simp add: consistent_def)
qed

lemma consistent_construct:
  assumes c: "consistent s" and fresh: "map_of (pipelines s) lc = None"
    and tr: "trace s' = trace s @ GetPipeline lc # Construct (Pipeline (Suc (length (trace s))) lc) # ws"
    and ws: "list_all neutral ws"
    and pl: "pipelines s' = pipelines s @ [(lc, Pipeline (Suc (length (trace s))) lc)]"
  shows "consistent s'"
proof -
  let ?p = "Pipeline (Suc (length (trace s))) lc"
  let ?t1 = "(trace s @ [GetPipeline lc]) @ [Construct ?p]"
  have t: "trace s' = ?t1 @ ws" using tr by simp
  have notin: "lc \<notin> set (map fst (pipelines s))"
    using fresh by (simp add: map_of_eq_None_iff)
  have own1: "owned_at ?t1 = owned_at (trace s) @ [?p]"
    by (simp only: owned_at_snoc) simp
  have "distinct (map lang (owned_at (trace s)))"
    using c by (simp add: consistent_def one_per_code_last)
  then have "distinct (map lang (owned_at (trace s) @ [?p]))"
    using notin consistent_keys [OF c] by simp
  then have d1: "distinct (map lang (owned_at ?t1))"
    by (simp only: own1)
  have o0: "one_per_code (trace s @ [GetPipeline lc])"
    using c one_per_code_append_neutral [of "[GetPipeline lc]" "trace s"] by (simp add: consistent_def)
  have o1: "one_per_code ?t1"
    using o0 d1 one_per_code_snoc [of "trace s @ [GetPipeline lc]" "Construct ?p"] by blast
  have o2: "one_per_code (trace s')"
    unfolding t using o1 ws by (simp only: one_per_code_append_neutral)
  have l2: "owned_at (trace s') = owned_at (trace s) @ [?p]"
    unfolding t using ws own1 by (simp only: owned_at_append_neutral)
  show ?thesis
    using c notin o2 l2 pl tr by (auto simp: consistent_def list_all_iff)
qed

lemma consistent_get_pipeline:
  assumes "consistent s"
  shows "consistent (snd (get_pipeline w s lc))"
proof (cases "map_of (pipelines s) lc")
  case (Some p)
  then show ?thesis
    using consistent_neutral [OF assms, of "log (GetPipeline lc) s" "[GetPipeline lc]"]
    by (simp add: get_pipeline_cached)
next
  case None
  show ?thesis
  proof (cases "ext_KPipeline w (trace s @ [GetPipeline lc]) lc")
    case (Some e)
    then show ?thesis
      using None consistent_neutral [OF assms,
          of "log (ConstructFailed lc) (log (GetPipeline lc) s)" "[GetPipeline lc, ConstructFailed lc]"]
      by (simp add: get_pipeline_failed)
  next
    case None2: None
    from get_pipeline_new [OF None None2] obtain s1 ws where
      g: "get_pipeline w s lc = (Inr (Pipeline (Suc (length (trace s))) lc), s1)"
      and tr: "trace s1 = trace s @ GetPipeline lc # Construct (Pipeline (Suc (length (trace s))) lc) # ws"
      and q: "list_all quiet ws"
      and pl: "pipelines s1 = pipelines s @ [(lc, Pipeline (Suc (length (trace s))) lc)]"
      by blast
    from consistent_construct [OF assms None tr list_all_quiet_neutral [OF q] pl] g
    show ?thesis by simp
  qed
qed

lemma delete_snd_filter:
  "list_all (\<lambda>kv. lang (snd kv) = fst kv) al \<Longrightarrow>
   map snd (AList.delete lc al) = filter (\<lambda>q. lang q \<noteq> lc) (map snd al)"
  by (induction al) auto

lemma consistent_evict:
  assumes "consistent s"
  shows "consistent (evict lc s)"
proof -
  have a: "list_all (\<lambda>kv. lang (snd kv) = fst kv) (pipelines s)"
    by (rule consistent_lang [OF assms])
  have l: "owned_at (trace (evict lc s)) = map snd (AList.delete lc (pipelines s))"
    using assms by (simp add: delete_snd_filter [OF a] consistent_def)
  have d: "distinct (map fst (AList.delete lc (pipelines s)))"
    using assms by (simp add: consistent_def distinct_delete)
  have sub: "set (AList.delete lc (pipelines s)) \<subseteq> set (pipelines s)"
    by (auto simp: AList.delete_eq)
  have "list_all (\<lambda>kv. lang (snd kv) = fst kv) (AList.delete lc (pipelines s))"
    using a sub by (auto simp: list_all_iff)
  then have k: "map lang (map snd (AList.delete lc (pipelines s))) = map fst (AList.delete lc (pipelines s))"
    by (rule lang_keys)
  have "distinct (map lang (owned_at (trace (evict lc s))))"
    using d by (simp only: l k)
  then have o: "one_per_code (trace (evict lc s))"
    using assms by (simp add: one_per_code_snoc consistent_def)
  have b: "list_all (\<lambda>kv. lang (snd kv) = fst kv \<and> pid (snd kv) < length (trace (evict lc s)))
             (AList.delete lc (pipelines s))"
    using assms sub by (force simp: consistent_def list_all_iff)
  show ?thesis
    unfolding consistent_def using l d o b by simp
qed

lemma consistent_log: "neutral e \<Longrightarrow> consistent s \<Longrightarrow> consistent (log e s)"
  using consistent_neutral [of s "log e s" "[e]"] by simp

lemma consistent_frame [simp]:
  "consistent (s\<lparr>frame_pipe := x\<rparr>) = consistent s"
  "consistent (assign_pipe p s) = consistent s"
  "consistent (snd (leave_frame r)) = consistent (snd r)"
  by (simp_all add: consistent_def assign_pipe_def leave_frame_def)

lemma consistent_attempt:
  assumes "consistent s"
  shows "consistent (snd (attempt w s lc t v))"
proof -
  obtain r1 s1 where g: "get_pipeline w s lc = (r1, s1)"
    by (cases "get_pipeline w s lc")
  have c1: "consistent s1"
    using consistent_get_pipeline [OF assms, of w lc] g by simp
  show ?thesis
    using c1 g
    by (auto simp: attempt_def pipe_load_voice_def run_inference_def consistent_log split: sum.splits)
qed

lemma consistent_audio_to_mp3:
  assumes "consistent s"
  shows "consistent (snd (audio_to_mp3 w s a))"
proof -
  obtain evs where e: "trace (snd (audio_to_mp3 w s a)) = trace s @ SfWrite a # evs"
    "list_all quiet evs" "pipelines (snd (audio_to_mp3 w s a)) = pipelines s"
    using audio_to_mp3_fields [of w s a] by blast
  have "list_all neutral (SfWrite a # evs)"
    using e(2) by (simp add: list_all_quiet_neutral)
  from consistent_neutral [OF assms e(1) this e(3)] show ?thesis .
qed

lemma consistent_counter [simp]: "consistent (s\<lparr>nan_recoveries := n\<rparr>) = consistent s"
  by (simp add: consistent_def)

lemma consistent_generate_mp3_body:
  assumes "consistent s"
  shows "consistent (snd (generate_mp3_body w s text v))"
proof (cases v)
  case Nil
  then show ?thesis using assms by (simp add: generate_mp3_body_def)
next
  case (Cons c r)
  obtain r1 s1 where a1: "attempt w s [c] text (c # r) = (r1, s1)"
    by (cases "attempt w s [c] text (c # r)")
  have c1: "consistent s1"
    using consistent_attempt [OF assms, of w "[c]" "text" "c # r"] a1 by simp
  obtain r2 s2 where a2: "attempt w (evict [c] s1) [c] text (c # r) = (r2, s2)"
    by (cases "attempt w (evict [c] s1) [c] text (c # r)")
  have c2: "consistent s2"
    using consistent_attempt [OF consistent_evict [OF c1], of w "[c]" "[c]" "text" "c # r"] a2 by simp
  show ?thesis
    unfolding Cons generate_mp3_body_attempts a1
    using c1 c2 a2 by (auto simp: consistent_audio_to_mp3 split: sum.splits)
qed

lemma consistent_generate_mp3:
  "consistent s \<Longrightarrow> consistent (snd (generate_mp3 w s text v))"
  by (simp add: generate_mp3_def consistent_generate_mp3_body)

lemma consistent_tts_body:
  assumes "consistent s"
  shows "consistent (snd (tts_body w s body))"
  using assms consistent_generate_mp3 [OF assms, of w]
  by (auto simp: tts_body_def split: sum.splits json.splits prod.splits)
     (metis snd_conv)+

lemma consistent_list_voices: "consistent s \<Longrightarrow> consistent (snd (list_voices w s))"
  by (auto simp: list_voices_def consistent_log split: sum.splits)

lemma consistent_do_POST:
  assumes "consistent s"
  shows "consistent (snd (do_POST w s req))"
proof -
  have a: "\<And>n body. consistent (snd (tts_body w (log (ReadBody n) s) body))"
    by (rule consistent_tts_body) (simp add: consistent_log assms)
  have b: "consistent (snd (list_voices w s))"
    by (rule consistent_list_voices [OF assms])
  show ?thesis
    using assms a b
    by (auto simp: do_POST_def Let_def consistent_log split: option.splits sum.splits prod.splits)
       (metis snd_conv)+
qed

lemma consistent_do_GET: "consistent s \<Longrightarrow> consistent (snd (do_GET w s req))"
  by (simp add: do_GET_def consistent_list_voices)

lemma consistent_init: "consistent init_state"
  by (simp add: consistent_def init_state_def owned_at_def)

lemma reachable_consistent: "reachable s \<Longrightarrow> consistent s"
proof (induction rule: reachable.induct)
  case (startup w p s)
  then show ?case using consistent_get_pipeline [OF consistent_init, of w "''a''"] by simp
next
  case (post s w req)
  then show ?case by (simp add: consistent_do_POST)
next
  case (get s w req)
  then show ?case by (simp add: consistent_do_GET)
qed

section \<open>NaN recovery in POST /tts\<close>

lemma respond_snd [simp]: "snd (respond r) = snd r"
  by (simp add: respond_def split: prod.splits sum.splits)

lemma leave_frame_pair [simp]: "leave_frame (x, s) = (x, s\<lparr>frame_pipe := None\<rparr>)"
  by (simp add: leave_frame_def)

lemma audio_to_mp3_left_fields:
  "trace (snd (leave_frame (audio_to_mp3 w s a))) = trace (snd (audio_to_mp3 w s a)) \<and>
   pipelines (snd (leave_frame (audio_to_mp3 w s a))) = pipelines s \<and>
   nan_recoveries (snd (leave_frame (audio_to_mp3 w s a))) = nan_recoveries s"
  using audio_to_mp3_fields [of w s a] by auto

lemma get_pipeline_trace:
  "\<exists>evs. trace (snd (get_pipeline w s lc)) = trace s @ GetPipeline lc # evs"
proof (cases "map_of (pipelines s) lc")
  case (Some p)
  then show ?thesis by (simp add: get_pipeline_cached)
next
  case None
  show ?thesis
  proof (cases "ext_KPipeline w (trace s @ [GetPipeline lc]) lc")
    case (Some e)
    with None show ?thesis by (simp add: get_pipeline_failed)
  next
    case None2: None
    from get_pipeline_new [OF None None2] show ?thesis by auto
  qed
qed

lemma attempt_trace:
  "\<exists>evs. trace (snd (attempt w s lc t v)) = trace s @ GetPipeline lc # evs"
proof -
  obtain r1 s1 where g: "get_pipeline w s lc = (r1, s1)"
    by (cases "get_pipeline w s lc")
  obtain evs where e: "trace s1 = trace s @ GetPipeline lc # evs"
    using get_pipeline_trace [of w s lc] g by auto
  show ?thesis
    using g e
    by (auto simp: attempt_def pipe_load_voice_def run_inference_def split: sum.splits)
qed

lemma quiet_not_evict: "list_all quiet evs \<Longrightarrow> \<not> list_ex is_evict evs"
proof (induction evs)
  case Nil
  then show ?case by simp
next
  case (Cons e evs)
  then show ?case by (cases e) auto
qed

lemma quiet_no_inference: "list_all quiet evs \<Longrightarrow> filter is_inference evs = []"
proof (induction evs)
  case Nil
  then show ?case by simp
next
  case (Cons e evs)
  then show ?case by (cases e) auto
qed

text \<open>What a successful attempt adds to the log: one inference, no eviction.\<close>

lemma attempt_ok_events:
  assumes "attempt w s lc t v = (Inr (p, a), s')"
  shows "\<exists>evs. trace s' = trace s @ evs \<and> inference_calls evs = 1 \<and> \<not> list_ex is_evict evs"
proof -
  from attempt_ok [OF assms] obtain evs vo where
    tr: "trace s' = trace s @ GetPipeline lc # evs @ [LoadVoice p v, RunInference p t vo]"
    and c: "case map_of (pipelines s) lc of
           Some q \<Rightarrow> q = p \<and> evs = [] \<and> pipelines s' = pipelines s
         | None \<Rightarrow> p = Pipeline (Suc (length (trace s))) lc \<and>
                    pipelines s' = pipelines s @ [(lc, p)] \<and>
                    (\<exists>ws. evs = Construct p # ws \<and> list_all quiet ws)"
    by blast
  have "filter is_inference evs = [] \<and> \<not> list_ex is_evict evs"
    using c by (auto simp: quiet_no_inference quiet_not_evict split: option.splits)
  then show ?thesis
    using tr by (auto simp: inference_calls_def)
qed

lemma audio_to_mp3_events:
  "\<exists>evs. trace (snd (audio_to_mp3 w s a)) = trace s @ SfWrite a # evs \<and>
     inference_calls (SfWrite a # evs) = 0 \<and> \<not> list_ex is_evict (SfWrite a # evs)"
  using audio_to_mp3_fields [of w s a]
  by (auto simp: inference_calls_def quiet_no_inference quiet_not_evict)

lemma accepted_voice: "accepted w req n text v \<Longrightarrow> \<exists>c r. v = c # r"
  by (simp add: accepted_def VOICE_PATTERN_match_Cons)

lemma new_events_append [simp]: "trace s' = trace s @ evs \<Longrightarrow> new_events s s' = evs"
  by (simp add: new_events_def)


lemma consistent_cached_old:
  assumes "consistent s" "map_of (pipelines s) lc = Some p"
  shows "pid p < length (trace s)"
proof -
  have "(lc, p) \<in> set (pipelines s)"
    using assms(2) by (rule map_of_SomeD)
  then show ?thesis
    using assms(1) by (auto simp: consistent_def list_all_iff)
qed

lemma attempt_ok_pid:
  assumes c: "consistent s" and att: "attempt w s lc t v = (Inr (p, a), s')"
  shows "pid p < length (trace s')"
proof -
  from attempt_ok [OF att] obtain evs vo where
    tr: "trace s' = trace s @ GetPipeline lc # evs @ [LoadVoice p v, RunInference p t vo]"
    and cs: "case map_of (pipelines s) lc of
           Some q \<Rightarrow> q = p \<and> evs = [] \<and> pipelines s' = pipelines s
         | None \<Rightarrow> p = Pipeline (Suc (length (trace s))) lc \<and>
                    pipelines s' = pipelines s @ [(lc, p)] \<and>
                    (\<exists>ws. evs = Construct p # ws \<and> list_all quiet ws)"
    by blast
  show ?thesis
  proof (cases "map_of (pipelines s) lc")
    case None
    with cs have "pid p = Suc (length (trace s))" by auto
    then show ?thesis using tr by simp
  next
    case (Some q)
    with cs have "q = p" by simp
    with Some consistent_cached_old [OF c] have "pid p < length (trace s)" by simp
    then show ?thesis using tr by simp
  qed
qed

text \<open>An attempt on a cache without the code constructs the pipeline it uses.\<close>

lemma attempt_ok_fresh:
  assumes att: "attempt w s lc t v = (Inr (p, a), s')" and fresh: "map_of (pipelines s) lc = None"
  shows "p = Pipeline (Suc (length (trace s))) lc \<and>
         (\<exists>rest. trace s' = trace s @ GetPipeline lc # Construct p # rest)"
  using attempt_ok [OF att] fresh by auto


text \<open>
  C3, with NaN in place of non-finite. Take a POST /tts request that passes the checks and
  whose first attempt returns the audio \<open>a\<close>. The request evicts a pipeline exactly when \<open>a\<close>
  contains a NaN, and then it goes on to the second attempt: the eviction is followed by a
  new call of \<open>get_pipeline\<close> for the same code. When \<open>a\<close> contains no NaN (so also when all
  its samples are finite), the audio goes straight to the encoder, the request has made
  exactly one inference call, and the recovery counter is what it was.
\<close>

theorem recovery_iff_nan:
  assumes acc: "accepted w req n text v"
    and att: "attempt w (log (ReadBody n) s) (take 1 v) text v = (Inr (p, a), s1)"
  shows "(list_ex is_evict (new_events s (snd (do_POST w s req))) \<longleftrightarrow> list_ex isnan a) \<and>
         (list_ex isnan a \<longrightarrow>
            (\<exists>rest. trace (snd (do_POST w s req))
                      = trace s1 @ Evict (take 1 v) # GetPipeline (take 1 v) # rest)) \<and>
         (\<not> list_ex isnan a \<longrightarrow>
            do_POST w s req = respond (leave_frame (audio_to_mp3 w s1 a)) \<and>
            inference_calls (new_events s (snd (do_POST w s req))) = 1 \<and>
            nan_recoveries (snd (do_POST w s req)) = nan_recoveries s)"
proof -
  obtain c r where v: "v = c # r"
    using accepted_voice [OF acc] by blast
  have lc: "take 1 v = [c]" by (simp add: v)
  let ?s0 = "log (ReadBody n) s"
  have post: "do_POST w s req = respond (generate_mp3 w ?s0 text v)"
    by (rule do_POST_accepted [OF acc])
  have att': "attempt w ?s0 [c] text (c # r) = (Inr (p, a), s1)"
    using att by (simp add: v)
  obtain evs1 where e1: "trace s1 = trace ?s0 @ evs1" "inference_calls evs1 = 1"
    "\<not> list_ex is_evict evs1"
    using attempt_ok_events [OF att'] by blast
  have n1: "nan_recoveries s1 = nan_recoveries s"
    using attempt_ok [OF att'] by simp
  show ?thesis
  proof (cases "list_ex isnan a")
    case False
    have g: "generate_mp3 w ?s0 text v = leave_frame (audio_to_mp3 w s1 a)"
      using False by (simp add: v generate_mp3_attempts att')
    obtain evs2 where e2: "trace (snd (audio_to_mp3 w s1 a)) = trace s1 @ SfWrite a # evs2"
      "inference_calls (SfWrite a # evs2) = 0" "\<not> list_ex is_evict (SfWrite a # evs2)"
      using audio_to_mp3_events [of w s1 a] by blast
    have tr: "trace (snd (do_POST w s req)) = trace s @ ReadBody n # evs1 @ SfWrite a # evs2"
      using e1(1) e2(1) by (simp add: post g)
    have nr: "nan_recoveries (snd (do_POST w s req)) = nan_recoveries s"
      using audio_to_mp3_fields [of w s1 a] n1 by (auto simp: post g)
    show ?thesis
      using False e1 e2 nr
      by (simp add: new_events_append [OF tr] inference_calls_def) (simp add: post g)
  next
    case True
    obtain r2 s2 where a2: "attempt w (evict [c] s1) [c] text (c # r) = (r2, s2)"
      by (cases "attempt w (evict [c] s1) [c] text (c # r)")
    obtain evs2 where e2: "trace s2 = trace s1 @ Evict [c] # GetPipeline [c] # evs2"
      using attempt_trace [of w "evict [c] s1" "[c]" "text" "c # r"] a2 by auto
    have "\<exists>rest. trace (snd (generate_mp3 w ?s0 text v)) = trace s1 @ Evict [c] # GetPipeline [c] # rest"
    proof (cases r2)
      case (Inl e)
      then show ?thesis using True e2 by (simp add: v generate_mp3_attempts att' a2)
    next
      case (Inr pa)
      obtain p' a' where pa: "pa = (p', a')" by (cases pa)
      show ?thesis
      proof (cases "list_ex isnan a'")
        case nan2: True
        then show ?thesis using True e2 Inr pa by (simp add: v generate_mp3_attempts att' a2)
      next
        case clean2: False
        let ?s3 = "s2\<lparr>nan_recoveries := nan_recoveries s2 + 1\<rparr>"
        obtain evs3 where "trace (snd (audio_to_mp3 w ?s3 a')) = trace ?s3 @ SfWrite a' # evs3"
          using audio_to_mp3_fields [of w ?s3 a'] by blast
        then show ?thesis
          using True e2 Inr pa clean2 by (simp add: v generate_mp3_attempts att' a2)
      qed
    qed
    then obtain rest where
      tr: "trace (snd (do_POST w s req)) = trace s1 @ Evict [c] # GetPipeline [c] # rest"
      by (auto simp: post)
    have tr': "trace (snd (do_POST w s req)) = trace s @ ReadBody n # evs1 @ Evict [c] # GetPipeline [c] # rest"
      using tr e1(1) by simp
    show ?thesis
      using True tr by (simp add: new_events_append [OF tr'] v)
  qed
qed

text \<open>
  C2, with NaN in place of non-finite and without the unchanged state. When the audio of
  the first attempt and the audio of the attempt made after the eviction both contain a
  NaN, the request is answered 500 with the JSON error of the RuntimeError, it has made
  exactly two inference calls, and the recovery counter is what it was before the request.
  The cache is not what it was before the request: the pipeline \<open>p\<close> of the first attempt
  has been evicted and the cache holds the newly constructed \<open>p'\<close> in its place.
\<close>

theorem nan_twice_fails:
  assumes reach: "reachable s"
    and acc: "accepted w req n text v"
    and att1: "attempt w (log (ReadBody n) s) (take 1 v) text v = (Inr (p, a), s1)"
    and nan1: "list_ex isnan a"
    and att2: "attempt w (evict (take 1 v) s1) (take 1 v) text v = (Inr (p', a'), s2)"
    and nan2: "list_ex isnan a'"
  shows "do_POST w s req
           = (json_error 500 ''NaN in audio output after pipeline reload'',
              s2\<lparr>frame_pipe := None\<rparr>) \<and>
         inference_calls (new_events s s2) = 2 \<and>
         nan_recoveries s2 = nan_recoveries s \<and>
         map_of (pipelines s1) (take 1 v) = Some p \<and>
         map_of (pipelines s2) (take 1 v) = Some p' \<and>
         p' \<noteq> p \<and>
         pipelines s2 \<noteq> pipelines s1 \<and>
         pipelines s2 \<noteq> pipelines s"
proof -
  obtain c r where v: "v = c # r"
    using accepted_voice [OF acc] by blast
  let ?s0 = "log (ReadBody n) s"
  have post: "do_POST w s req = respond (generate_mp3 w ?s0 text v)"
    by (rule do_POST_accepted [OF acc])
  have att1': "attempt w ?s0 [c] text (c # r) = (Inr (p, a), s1)"
    using att1 by (simp add: v)
  have att2': "attempt w (evict [c] s1) [c] text (c # r) = (Inr (p', a'), s2)"
    using att2 by (simp add: v)
  obtain evs1 where e1: "trace s1 = trace ?s0 @ evs1" "inference_calls evs1 = 1"
    using attempt_ok_events [OF att1'] by blast
  obtain evs2 where e2: "trace s2 = trace (evict [c] s1) @ evs2" "inference_calls evs2 = 1"
    using attempt_ok_events [OF att2'] by blast
  have tr: "trace s2 = trace s @ ReadBody n # evs1 @ Evict [c] # evs2"
    using e1(1) e2(1) by simp
  have cnt: "inference_calls (new_events s s2) = 2"
    using e1(2) e2(2) by (simp add: new_events_append [OF tr] inference_calls_def)
  have nr: "nan_recoveries s2 = nan_recoveries s"
    using attempt_ok [OF att1'] attempt_ok [OF att2'] by simp
  have c0: "consistent ?s0"
    using reachable_consistent [OF reach] by (simp add: consistent_log)
  have old: "map_of (pipelines s1) [c] = Some p"
    using attempt_ok [OF att1'] by simp
  have new: "map_of (pipelines s2) [c] = Some p'"
    using attempt_ok [OF att2'] by simp
  have fresh: "map_of (pipelines (evict [c] s1)) [c] = None"
    by (simp add: delete_conv')
  have p': "p' = Pipeline (Suc (Suc (length (trace s1)))) [c]"
    using attempt_ok_fresh [OF att2' fresh] by simp
  have pold: "pid p < length (trace s1)"
    by (rule attempt_ok_pid [OF c0 att1'])
  have ne: "p' \<noteq> p"
    using pold p' by auto
  have ch: "pipelines s2 \<noteq> pipelines s1"
    using old new ne by auto
  have "map_of (pipelines s) [c] \<noteq> Some p'"
  proof
    assume "map_of (pipelines s) [c] = Some p'"
    then have "pid p' < length (trace s)"
      by (rule consistent_cached_old [OF reachable_consistent [OF reach]])
    then show False
      using p' e1(1) by simp
  qed
  then have ch0: "pipelines s2 \<noteq> pipelines s"
    using new by auto
  have "generate_mp3 w ?s0 text v
          = (Inl (Exn ''RuntimeError'' ''NaN in audio output after pipeline reload''),
             s2\<lparr>frame_pipe := None\<rparr>)"
    using nan1 nan2 by (simp add: v generate_mp3_attempts att1' att2')
  then show ?thesis
    using cnt nr old new ne ch ch0 by (simp add: post respond_def v)
qed


text \<open>
  C1, with NaN in place of non-finite. When the audio of the first attempt contains a NaN
  and the audio of the attempt made after the eviction contains none (as a clean output
  does), the request makes exactly two inference calls and adds 1 to the recovery counter.
  The pipeline \<open>p\<close> cached for the code after the first attempt is evicted, and after the
  request the cache holds for that code a different pipeline \<open>p'\<close>, constructed at a
  position of the log that comes after the eviction.
\<close>

theorem nan_recovery:
  assumes reach: "reachable s"
    and acc: "accepted w req n text v"
    and att1: "attempt w (log (ReadBody n) s) (take 1 v) text v = (Inr (p, a), s1)"
    and nan1: "list_ex isnan a"
    and att2: "attempt w (evict (take 1 v) s1) (take 1 v) text v = (Inr (p', a'), s2)"
    and clean2: "\<not> list_ex isnan a'"
  shows "do_POST w s req
           = respond (leave_frame
               (audio_to_mp3 w (s2\<lparr>nan_recoveries := nan_recoveries s + 1\<rparr>) a')) \<and>
         inference_calls (new_events s (snd (do_POST w s req))) = 2 \<and>
         nan_recoveries (snd (do_POST w s req)) = nan_recoveries s + 1 \<and>
         map_of (pipelines s1) (take 1 v) = Some p \<and>
         map_of (pipelines (snd (do_POST w s req))) (take 1 v) = Some p' \<and>
         p' \<noteq> p \<and>
         trace (snd (do_POST w s req)) ! length (trace s1) = Evict (take 1 v) \<and>
         length (trace s1) < pid p' \<and>
         trace (snd (do_POST w s req)) ! pid p' = Construct p'"
proof -
  obtain c r where v: "v = c # r"
    using accepted_voice [OF acc] by blast
  let ?s0 = "log (ReadBody n) s"
  let ?s3 = "s2\<lparr>nan_recoveries := nan_recoveries s + 1\<rparr>"
  have post: "do_POST w s req = respond (generate_mp3 w ?s0 text v)"
    by (rule do_POST_accepted [OF acc])
  have att1': "attempt w ?s0 [c] text (c # r) = (Inr (p, a), s1)"
    using att1 by (simp add: v)
  have att2': "attempt w (evict [c] s1) [c] text (c # r) = (Inr (p', a'), s2)"
    using att2 by (simp add: v)
  have c0: "consistent ?s0"
    using reachable_consistent [OF reach] by (simp add: consistent_log)
  obtain evs1 where e1: "trace s1 = trace ?s0 @ evs1" "inference_calls evs1 = 1"
    using attempt_ok_events [OF att1'] by blast
  obtain evs2 where e2: "trace s2 = trace (evict [c] s1) @ evs2" "inference_calls evs2 = 1"
    using attempt_ok_events [OF att2'] by blast
  have nr: "nan_recoveries s2 = nan_recoveries s"
    using attempt_ok [OF att1'] attempt_ok [OF att2'] by simp
  have g: "generate_mp3 w ?s0 text v = leave_frame (audio_to_mp3 w ?s3 a')"
    using nan1 clean2 nr by (simp add: v generate_mp3_attempts att1' att2')
  obtain evs3 where e3: "trace (snd (audio_to_mp3 w ?s3 a')) = trace s2 @ SfWrite a' # evs3"
    "inference_calls (SfWrite a' # evs3) = 0"
    using audio_to_mp3_events [of w ?s3 a'] by auto
  have f3: "pipelines (snd (audio_to_mp3 w ?s3 a')) = pipelines s2"
    "nan_recoveries (snd (audio_to_mp3 w ?s3 a')) = nan_recoveries s + 1"
    using audio_to_mp3_fields [of w ?s3 a'] by auto
  have tr: "trace (snd (do_POST w s req))
              = trace s @ ReadBody n # evs1 @ Evict [c] # evs2 @ SfWrite a' # evs3"
    using e1(1) e2(1) e3(1) by (simp add: post g)
  have cnt: "inference_calls (new_events s (snd (do_POST w s req))) = 2"
    using e1(2) e2(2) e3(2) by (simp add: new_events_append [OF tr] inference_calls_def)
  have old: "map_of (pipelines s1) [c] = Some p"
    using attempt_ok [OF att1'] by simp
  have new: "map_of (pipelines s2) [c] = Some p'"
    using attempt_ok [OF att2'] by simp
  have fresh: "map_of (pipelines (evict [c] s1)) [c] = None"
    by (simp add: delete_conv')
  from attempt_ok_fresh [OF att2' fresh] obtain rest where
    p': "p' = Pipeline (Suc (Suc (length (trace s1)))) [c]"
    and t2: "trace s2 = trace s1 @ Evict [c] # GetPipeline [c] # Construct p' # rest"
    by auto
  have pold: "pid p < length (trace s1)"
    by (rule attempt_ok_pid [OF c0 att1'])
  have ne: "p' \<noteq> p"
    using pold p' by auto
  have t3: "trace (snd (do_POST w s req))
              = trace s1 @ Evict [c] # GetPipeline [c] # Construct p' # rest @ SfWrite a' # evs3"
    using t2 e3(1) by (simp add: post g)
  have i1: "trace (snd (do_POST w s req)) ! length (trace s1) = Evict [c]"
    by (simp add: t3)
  have i2: "trace (snd (do_POST w s req)) ! pid p' = Construct p'"
    unfolding t3 by (simp add: p' nth_append)
  show ?thesis
    using cnt old new ne i1 i2 f3 p' by (simp add: v) (simp add: post g)
qed

subsection \<open>Concrete runs of the recovery\<close>

lemma accepted_example:
  "accepted (scripted body_hi outs) tts_request 36 (JStr ''hi'') ''af_heart''"
  by (simp add: world_defs run_defs py_int_defs)

lemma first_nan:
  "attempt (scripted body_hi nan_then_clean) (log (ReadBody 36) started) ''a'' (JStr ''hi'') ''af_heart''
     = (Inr (Pipeline 1 ''a'', [Finite 1 0, NaN]),
        \<lparr>pipelines = [(''a'', Pipeline 1 ''a'')], nan_recoveries = 0,
         trace = [GetPipeline ''a'', Construct (Pipeline 1 ''a''),
               LoadVoice (Pipeline 1 ''a'') ''af_alloy'',
               WarmupPass (Pipeline 1 ''a'') (VoiceTensor 0), ReadBody 36, GetPipeline ''a'',
               LoadVoice (Pipeline 1 ''a'') ''af_heart'',
               RunInference (Pipeline 1 ''a'') (JStr ''hi'') (VoiceTensor 0)],
      frame_pipe = Some (Pipeline 1 ''a'')\<rparr>)"
  by (simp add: started_eq world_defs run_defs Let_def)

theorem recovery_iff_nan_witness:
  "accepted (scripted body_hi nan_then_clean) tts_request 36 (JStr ''hi'') ''af_heart'' \<and>
   fst (attempt (scripted body_hi nan_then_clean) (log (ReadBody 36) started)
          (take 1 ''af_heart'') (JStr ''hi'') ''af_heart'') = Inr (Pipeline 1 ''a'', [Finite 1 0, NaN]) \<and>
   list_ex isnan [Finite 1 0, NaN] \<and>
   list_ex is_evict (new_events started (snd (do_POST (scripted body_hi nan_then_clean) started tts_request)))"
proof -
  let ?w = "scripted body_hi nan_then_clean"
  let ?att = "attempt ?w (log (ReadBody 36) started) (take 1 ''af_heart'') (JStr ''hi'') ''af_heart''"
  have acc: "accepted ?w tts_request 36 (JStr ''hi'') ''af_heart''"
    by (rule accepted_example)
  have f: "fst ?att = Inr (Pipeline 1 ''a'', [Finite 1 0, NaN])"
    by (simp add: first_nan)
  then have att: "?att = (Inr (Pipeline 1 ''a'', [Finite 1 0, NaN]), snd ?att)"
    by (simp add: prod_eq_iff)
  have nan: "list_ex isnan [Finite 1 0, NaN]" by simp
  from recovery_iff_nan [OF acc att] nan acc f show ?thesis by blast
qed

lemma second_after_nan:
  "attempt (scripted body_hi outs)
     (evict ''a'' (snd (attempt (scripted body_hi outs) (log (ReadBody 36) started) ''a'' (JStr ''hi'') ''af_heart'')))
     ''a'' (JStr ''hi'') ''af_heart''
   = (map_sum id (Pair (Pipeline 10 ''a'')) (inference_result (outs 1)),
      \<lparr>pipelines = [(''a'', Pipeline 10 ''a'')], nan_recoveries = 0,
       trace = [GetPipeline ''a'', Construct (Pipeline 1 ''a''),
               LoadVoice (Pipeline 1 ''a'') ''af_alloy'',
               WarmupPass (Pipeline 1 ''a'') (VoiceTensor 0), ReadBody 36, GetPipeline ''a'',
               LoadVoice (Pipeline 1 ''a'') ''af_heart'',
               RunInference (Pipeline 1 ''a'') (JStr ''hi'') (VoiceTensor 0),
               Evict ''a'', GetPipeline ''a'', Construct (Pipeline 10 ''a''),
               LoadVoice (Pipeline 10 ''a'') ''af_alloy'',
               WarmupPass (Pipeline 10 ''a'') (VoiceTensor 0),
               LoadVoice (Pipeline 10 ''a'') ''af_heart'',
               RunInference (Pipeline 10 ''a'') (JStr ''hi'') (VoiceTensor 0)],
      frame_pipe = Some (Pipeline 10 ''a'')\<rparr>)"
  by (simp add: started_eq scripted_def run_defs Let_def split: sum.splits)

lemma post_nan_then_clean:
  "do_POST (scripted body_hi nan_then_clean) started tts_request =
    (AudioResponse ''ID3'',
     \<lparr>pipelines = [(''a'', Pipeline 10 ''a'')], nan_recoveries = 1,
      trace = [GetPipeline ''a'', Construct (Pipeline 1 ''a''),
               LoadVoice (Pipeline 1 ''a'') ''af_alloy'',
               WarmupPass (Pipeline 1 ''a'') (VoiceTensor 0), ReadBody 36, GetPipeline ''a'',
               LoadVoice (Pipeline 1 ''a'') ''af_heart'',
               RunInference (Pipeline 1 ''a'') (JStr ''hi'') (VoiceTensor 0),
               Evict ''a'', GetPipeline ''a'', Construct (Pipeline 10 ''a''),
               LoadVoice (Pipeline 10 ''a'') ''af_alloy'',
               WarmupPass (Pipeline 10 ''a'') (VoiceTensor 0),
               LoadVoice (Pipeline 10 ''a'') ''af_heart'',
               RunInference (Pipeline 10 ''a'') (JStr ''hi'') (VoiceTensor 0),
               SfWrite [Finite 1 0, Finite (- 3) (- 2)], Ffmpeg ''RIFF''],
      frame_pipe = None\<rparr>)"
  by (simp add: started_eq world_defs run_defs py_int_defs Let_def)

lemma post_inf_then_clean:
  "do_POST (scripted body_hi inf_then_clean) started tts_request =
    (AudioResponse ''ID3'',
     \<lparr>pipelines = [(''a'', Pipeline 1 ''a'')], nan_recoveries = 0,
      trace = [GetPipeline ''a'', Construct (Pipeline 1 ''a''),
               LoadVoice (Pipeline 1 ''a'') ''af_alloy'',
               WarmupPass (Pipeline 1 ''a'') (VoiceTensor 0), ReadBody 36, GetPipeline ''a'',
               LoadVoice (Pipeline 1 ''a'') ''af_heart'',
               RunInference (Pipeline 1 ''a'') (JStr ''hi'') (VoiceTensor 0),
               SfWrite [Finite 1 0, PosInf], Ffmpeg ''RIFF''],
      frame_pipe = None\<rparr>)"
  by (simp add: started_eq world_defs run_defs py_int_defs Let_def)

lemma post_nan_then_inf:
  "do_POST (scripted body_hi nan_then_inf) started tts_request =
    (AudioResponse ''ID3'',
     \<lparr>pipelines = [(''a'', Pipeline 10 ''a'')], nan_recoveries = 1,
      trace = [GetPipeline ''a'', Construct (Pipeline 1 ''a''),
               LoadVoice (Pipeline 1 ''a'') ''af_alloy'',
               WarmupPass (Pipeline 1 ''a'') (VoiceTensor 0), ReadBody 36, GetPipeline ''a'',
               LoadVoice (Pipeline 1 ''a'') ''af_heart'',
               RunInference (Pipeline 1 ''a'') (JStr ''hi'') (VoiceTensor 0),
               Evict ''a'', GetPipeline ''a'', Construct (Pipeline 10 ''a''),
               LoadVoice (Pipeline 10 ''a'') ''af_alloy'',
               WarmupPass (Pipeline 10 ''a'') (VoiceTensor 0),
               LoadVoice (Pipeline 10 ''a'') ''af_heart'',
               RunInference (Pipeline 10 ''a'') (JStr ''hi'') (VoiceTensor 0),
               SfWrite [PosInf], Ffmpeg ''RIFF''],
      frame_pipe = None\<rparr>)"
  by (simp add: started_eq world_defs run_defs py_int_defs Let_def)

lemma first_attempt_example:
  "fst (attempt (scripted body_hi outs) (log (ReadBody 36) started) ''a'' (JStr ''hi'') ''af_heart'')
     = map_sum id (Pair (Pipeline 1 ''a'')) (inference_result (outs 0))"
  by (simp add: started_eq scripted_def run_defs Let_def split: sum.splits)

lemmas script_defs = nan_then_clean_def always_nan_def inf_then_clean_def nan_then_inf_def
  clean_def inference_result_def

theorem nan_recovery_witness:
  "reachable started \<and>
   accepted (scripted body_hi nan_then_clean) tts_request 36 (JStr ''hi'') ''af_heart'' \<and>
   fst (attempt (scripted body_hi nan_then_clean) (log (ReadBody 36) started)
          ''a'' (JStr ''hi'') ''af_heart'') = Inr (Pipeline 1 ''a'', [Finite 1 0, NaN]) \<and>
   list_ex isnan [Finite 1 0, NaN] \<and>
   fst (attempt (scripted body_hi nan_then_clean)
          (evict ''a'' (snd (attempt (scripted body_hi nan_then_clean) (log (ReadBody 36) started)
                               ''a'' (JStr ''hi'') ''af_heart'')))
          ''a'' (JStr ''hi'') ''af_heart'') = Inr (Pipeline 10 ''a'', [Finite 1 0, Finite (- 3) (- 2)]) \<and>
   \<not> list_ex isnan [Finite 1 0, Finite (- 3) (- 2)] \<and>
   inference_calls (new_events started
      (snd (do_POST (scripted body_hi nan_then_clean) started tts_request))) = 2 \<and>
   nan_recoveries (snd (do_POST (scripted body_hi nan_then_clean) started tts_request))
      = nan_recoveries started + 1 \<and>
   map_of (pipelines (snd (do_POST (scripted body_hi nan_then_clean) started tts_request))) ''a''
      = Some (Pipeline 10 ''a'') \<and>
   Pipeline 10 ''a'' \<noteq> Pipeline 1 ''a''"
proof -
  let ?w = "scripted body_hi nan_then_clean"
  let ?a1 = "attempt ?w (log (ReadBody 36) started) ''a'' (JStr ''hi'') ''af_heart''"
  let ?a2 = "attempt ?w (evict ''a'' (snd ?a1)) ''a'' (JStr ''hi'') ''af_heart''"
  have acc: "accepted ?w tts_request 36 (JStr ''hi'') ''af_heart''"
    by (rule accepted_example)
  have f1: "fst ?a1 = Inr (Pipeline 1 ''a'', [Finite 1 0, NaN])"
    by (simp add: first_attempt_example script_defs)
  have f2: "fst ?a2 = Inr (Pipeline 10 ''a'', [Finite 1 0, Finite (- 3) (- 2)])"
    by (simp add: second_after_nan script_defs)
  have att1: "attempt ?w (log (ReadBody 36) started) (take 1 ''af_heart'') (JStr ''hi'') ''af_heart''
                = (Inr (Pipeline 1 ''a'', [Finite 1 0, NaN]), snd ?a1)"
    using f1 by (simp add: prod_eq_iff)
  have att2: "attempt ?w (evict (take 1 ''af_heart'') (snd ?a1)) (take 1 ''af_heart'') (JStr ''hi'') ''af_heart''
                = (Inr (Pipeline 10 ''a'', [Finite 1 0, Finite (- 3) (- 2)]), snd ?a2)"
    using f2 by (simp add: prod_eq_iff)
  have nan1: "list_ex isnan [Finite 1 0, NaN]" by simp
  have clean2: "\<not> list_ex isnan [Finite 1 0, Finite (- 3) (- 2)]" by simp
  note r = nan_recovery [OF reachable_started acc att1 nan1 att2 clean2]
  have c1: "inference_calls (new_events started (snd (do_POST ?w started tts_request))) = 2"
    using r by blast
  have c2: "nan_recoveries (snd (do_POST ?w started tts_request)) = nan_recoveries started + 1"
    using r by blast
  have "map_of (pipelines (snd (do_POST ?w started tts_request))) (take 1 ''af_heart'')
          = Some (Pipeline 10 ''a'')"
    using r by blast
  then have c3: "map_of (pipelines (snd (do_POST ?w started tts_request))) ''a''
          = Some (Pipeline 10 ''a'')"
    by simp
  have c4: "Pipeline 10 ''a'' \<noteq> Pipeline 1 ''a''"
    using r by blast
  show ?thesis
    using reachable_started acc f1 nan1 f2 clean2 c1 c2 c3 c4 by blast
qed

theorem nan_recovery_counterexample:
  "reachable started \<and>
   accepted (scripted body_hi inf_then_clean) tts_request 36 (JStr ''hi'') ''af_heart'' \<and>
   fst (attempt (scripted body_hi inf_then_clean) (log (ReadBody 36) started)
          ''a'' (JStr ''hi'') ''af_heart'') = Inr (Pipeline 1 ''a'', [Finite 1 0, PosInf]) \<and>
   list_ex nonfinite [Finite 1 0, PosInf] \<and>
   fst (attempt (scripted body_hi inf_then_clean)
          (evict ''a'' (snd (attempt (scripted body_hi inf_then_clean) (log (ReadBody 36) started)
                               ''a'' (JStr ''hi'') ''af_heart'')))
          ''a'' (JStr ''hi'') ''af_heart'') = Inr (Pipeline 10 ''a'', [Finite 1 0, Finite (- 3) (- 2)]) \<and>
   list_all isfinite [Finite 1 0, Finite (- 3) (- 2)] \<and>
   inference_calls (new_events started
      (snd (do_POST (scripted body_hi inf_then_clean) started tts_request))) = 1 \<and>
   pipelines (snd (do_POST (scripted body_hi inf_then_clean) started tts_request))
      = pipelines started \<and>
   nan_recoveries (snd (do_POST (scripted body_hi inf_then_clean) started tts_request))
      = nan_recoveries started"
  using reachable_started
  by (simp add: accepted_example first_attempt_example second_after_nan script_defs
        post_inf_then_clean)
     (simp add: started_eq new_events_def inference_calls_def)

theorem nan_twice_fails_witness:
  "accepted (scripted body_hi always_nan) tts_request 36 (JStr ''hi'') ''af_heart'' \<and>
   fst (attempt (scripted body_hi always_nan) (log (ReadBody 36) started)
          ''a'' (JStr ''hi'') ''af_heart'') = Inr (Pipeline 1 ''a'', [Finite 1 0, NaN]) \<and>
   fst (attempt (scripted body_hi always_nan)
          (evict ''a'' (snd (attempt (scripted body_hi always_nan) (log (ReadBody 36) started)
                               ''a'' (JStr ''hi'') ''af_heart'')))
          ''a'' (JStr ''hi'') ''af_heart'') = Inr (Pipeline 10 ''a'', [Finite 1 0, NaN]) \<and>
   list_ex isnan [Finite 1 0, NaN] \<and>
   fst (do_POST (scripted body_hi always_nan) started tts_request)
      = JsonResponse 500 (JDict [(''error'', JStr ''NaN in audio output after pipeline reload'')]) \<and>
   inference_calls (new_events started
      (snd (do_POST (scripted body_hi always_nan) started tts_request))) = 2 \<and>
   nan_recoveries (snd (do_POST (scripted body_hi always_nan) started tts_request))
      = nan_recoveries started \<and>
   map_of (pipelines (snd (do_POST (scripted body_hi always_nan) started tts_request))) ''a''
      = Some (Pipeline 10 ''a'') \<and>
   Pipeline 10 ''a'' \<noteq> Pipeline 1 ''a''"
proof -
  let ?w = "scripted body_hi always_nan"
  let ?a1 = "attempt ?w (log (ReadBody 36) started) ''a'' (JStr ''hi'') ''af_heart''"
  let ?a2 = "attempt ?w (evict ''a'' (snd ?a1)) ''a'' (JStr ''hi'') ''af_heart''"
  have acc: "accepted ?w tts_request 36 (JStr ''hi'') ''af_heart''"
    by (rule accepted_example)
  have f1: "fst ?a1 = Inr (Pipeline 1 ''a'', [Finite 1 0, NaN])"
    by (simp add: first_attempt_example script_defs)
  have f2: "fst ?a2 = Inr (Pipeline 10 ''a'', [Finite 1 0, NaN])"
    by (simp add: second_after_nan script_defs)
  have att1: "attempt ?w (log (ReadBody 36) started) (take 1 ''af_heart'') (JStr ''hi'') ''af_heart''
                = (Inr (Pipeline 1 ''a'', [Finite 1 0, NaN]), snd ?a1)"
    using f1 by (simp add: prod_eq_iff)
  have att2: "attempt ?w (evict (take 1 ''af_heart'') (snd ?a1)) (take 1 ''af_heart'') (JStr ''hi'') ''af_heart''
                = (Inr (Pipeline 10 ''a'', [Finite 1 0, NaN]), snd ?a2)"
    using f2 by (simp add: prod_eq_iff)
  have nan: "list_ex isnan [Finite 1 0, NaN]" by simp
  note r = nan_twice_fails [OF reachable_started acc att1 nan att2 nan]
  have post: "do_POST ?w started tts_request
           = (json_error 500 ''NaN in audio output after pipeline reload'',
              (snd ?a2)\<lparr>frame_pipe := None\<rparr>)"
    using r by blast
  have c1: "fst (do_POST ?w started tts_request)
      = JsonResponse 500 (JDict [(''error'', JStr ''NaN in audio output after pipeline reload'')])"
    by (simp add: post json_error_def)
  have "inference_calls (new_events started (snd ?a2)) = 2"
    using r by blast
  then have c2: "inference_calls (new_events started (snd (do_POST ?w started tts_request))) = 2"
    by (simp add: post new_events_def)
  have "nan_recoveries (snd ?a2) = nan_recoveries started"
    using r by blast
  then have c3: "nan_recoveries (snd (do_POST ?w started tts_request)) = nan_recoveries started"
    by (simp add: post)
  have "map_of (pipelines (snd ?a2)) (take 1 ''af_heart'') = Some (Pipeline 10 ''a'')"
    using r by blast
  then have c4: "map_of (pipelines (snd (do_POST ?w started tts_request))) ''a''
      = Some (Pipeline 10 ''a'')"
    by (simp add: post)
  have c5: "Pipeline 10 ''a'' \<noteq> Pipeline 1 ''a''"
    using r by blast
  show ?thesis
    using acc f1 f2 nan c1 c2 c3 c4 c5 by blast
qed

lemma post_always_nan:
  "do_POST (scripted body_hi always_nan) started tts_request =
    (JsonResponse 500 (JDict [(''error'', JStr ''NaN in audio output after pipeline reload'')]),
     \<lparr>pipelines = [(''a'', Pipeline 10 ''a'')], nan_recoveries = 0,
      trace = [GetPipeline ''a'', Construct (Pipeline 1 ''a''),
               LoadVoice (Pipeline 1 ''a'') ''af_alloy'',
               WarmupPass (Pipeline 1 ''a'') (VoiceTensor 0), ReadBody 36, GetPipeline ''a'',
               LoadVoice (Pipeline 1 ''a'') ''af_heart'',
               RunInference (Pipeline 1 ''a'') (JStr ''hi'') (VoiceTensor 0),
               Evict ''a'', GetPipeline ''a'', Construct (Pipeline 10 ''a''),
               LoadVoice (Pipeline 10 ''a'') ''af_alloy'',
               WarmupPass (Pipeline 10 ''a'') (VoiceTensor 0),
               LoadVoice (Pipeline 10 ''a'') ''af_heart'',
               RunInference (Pipeline 10 ''a'') (JStr ''hi'') (VoiceTensor 0)],
      frame_pipe = None\<rparr>)"
  by (simp add: started_eq world_defs run_defs py_int_defs Let_def)

theorem nan_twice_fails_counterexample:
  "accepted (scripted body_hi nan_then_inf) tts_request 36 (JStr ''hi'') ''af_heart'' \<and>
   fst (attempt (scripted body_hi nan_then_inf) (log (ReadBody 36) started)
          ''a'' (JStr ''hi'') ''af_heart'') = Inr (Pipeline 1 ''a'', [Finite 1 0, NaN]) \<and>
   list_ex nonfinite [Finite 1 0, NaN] \<and>
   fst (attempt (scripted body_hi nan_then_inf)
          (evict ''a'' (snd (attempt (scripted body_hi nan_then_inf) (log (ReadBody 36) started)
                               ''a'' (JStr ''hi'') ''af_heart'')))
          ''a'' (JStr ''hi'') ''af_heart'') = Inr (Pipeline 10 ''a'', [PosInf]) \<and>
   list_ex nonfinite [PosInf] \<and>
   fst (do_POST (scripted body_hi nan_then_inf) started tts_request) = AudioResponse ''ID3'' \<and>
   nan_recoveries (snd (do_POST (scripted body_hi nan_then_inf) started tts_request))
      = nan_recoveries started + 1 \<and>
   accepted (scripted body_hi always_nan) tts_request 36 (JStr ''hi'') ''af_heart'' \<and>
   fst (attempt (scripted body_hi always_nan) (log (ReadBody 36) started)
          ''a'' (JStr ''hi'') ''af_heart'') = Inr (Pipeline 1 ''a'', [Finite 1 0, NaN]) \<and>
   fst (attempt (scripted body_hi always_nan)
          (evict ''a'' (snd (attempt (scripted body_hi always_nan) (log (ReadBody 36) started)
                               ''a'' (JStr ''hi'') ''af_heart'')))
          ''a'' (JStr ''hi'') ''af_heart'') = Inr (Pipeline 10 ''a'', [Finite 1 0, NaN]) \<and>
   fst (do_POST (scripted body_hi always_nan) started tts_request)
      = JsonResponse 500 (JDict [(''error'', JStr ''NaN in audio output after pipeline reload'')]) \<and>
   pipelines started = [(''a'', Pipeline 1 ''a'')] \<and>
   pipelines (snd (do_POST (scripted body_hi always_nan) started tts_request))
      = [(''a'', Pipeline 10 ''a'')]"
  by (simp add: accepted_example first_attempt_example second_after_nan script_defs
        post_nan_then_inf post_always_nan)
     (simp add: started_eq)

theorem recovery_iff_nan_counterexample:
  "accepted (scripted body_hi inf_then_clean) tts_request 36 (JStr ''hi'') ''af_heart'' \<and>
   fst (attempt (scripted body_hi inf_then_clean) (log (ReadBody 36) started)
          ''a'' (JStr ''hi'') ''af_heart'') = Inr (Pipeline 1 ''a'', [Finite 1 0, PosInf]) \<and>
   list_ex nonfinite [Finite 1 0, PosInf] \<and>
   \<not> list_ex is_evict (new_events started
      (snd (do_POST (scripted body_hi inf_then_clean) started tts_request))) \<and>
   inference_calls (new_events started
      (snd (do_POST (scripted body_hi inf_then_clean) started tts_request))) = 1"
  by (simp add: accepted_example first_attempt_example script_defs post_inf_then_clean)
     (simp add: started_eq new_events_def inference_calls_def)

section \<open>The pipeline cache\<close>

text \<open>
  C8, for the cache and not for the lifetime of the objects. The cache owns a pipeline from
  its construction by \<open>get_pipeline\<close> until the entry of its language code is evicted. In
  every state the process can reach between two requests: at every point of the log so far,
  the pipelines the cache owns have pairwise different language codes; every construction
  of a pipeline happened at a point where the cache owned no pipeline of that code, so a
  recovery has evicted the entry of the old pipeline before it constructs the new one; and
  the cache holds exactly the pipelines it owns, each under its own code, with no key twice.
  A request is handled to its end before the next one starts, so the log is a sequence.
  The statement says nothing about the evicted object, which \<open>generate_mp3\<close> still refers
  to while the new one is constructed (see the counterexample below).
\<close>

theorem one_pipeline_per_code:
  assumes "reachable s"
  shows "(\<forall>pre. prefix pre (trace s) \<longrightarrow> distinct (map lang (owned_at pre))) \<and>
         (\<forall>pre p. prefix (pre @ [Construct p]) (trace s) \<longrightarrow>
                    lang p \<notin> set (map lang (owned_at pre))) \<and>
         map snd (pipelines s) = owned_at (trace s) \<and>
         distinct (map fst (pipelines s)) \<and>
         list_all (\<lambda>kv. lang (snd kv) = fst kv) (pipelines s)"
proof -
  have c: "consistent s"
    by (rule reachable_consistent [OF assms])
  have a: "\<forall>pre. prefix pre (trace s) \<longrightarrow> distinct (map lang (owned_at pre))"
    using c by (simp add: consistent_def one_per_code_def)
  have b: "\<forall>pre p. prefix (pre @ [Construct p]) (trace s) \<longrightarrow>
                    lang p \<notin> set (map lang (owned_at pre))"
  proof (intro allI impI)
    fix pre p
    assume "prefix (pre @ [Construct p]) (trace s)"
    with a have "distinct (map lang (owned_at (pre @ [Construct p])))" by blast
    then show "lang p \<notin> set (map lang (owned_at pre))" by simp
  qed
  show ?thesis
    using a b c consistent_lang [OF c] by (simp add: consistent_def)
qed

lemma recovered_eq:
  "recovered =
     \<lparr>pipelines = [(''a'', Pipeline 10 ''a'')], nan_recoveries = 1,
      trace = [GetPipeline ''a'', Construct (Pipeline 1 ''a''),
               LoadVoice (Pipeline 1 ''a'') ''af_alloy'',
               WarmupPass (Pipeline 1 ''a'') (VoiceTensor 0), ReadBody 36, GetPipeline ''a'',
               LoadVoice (Pipeline 1 ''a'') ''af_heart'',
               RunInference (Pipeline 1 ''a'') (JStr ''hi'') (VoiceTensor 0),
               Evict ''a'', GetPipeline ''a'', Construct (Pipeline 10 ''a''),
               LoadVoice (Pipeline 10 ''a'') ''af_alloy'',
               WarmupPass (Pipeline 10 ''a'') (VoiceTensor 0),
               LoadVoice (Pipeline 10 ''a'') ''af_heart'',
               RunInference (Pipeline 10 ''a'') (JStr ''hi'') (VoiceTensor 0),
               SfWrite [Finite 1 0, Finite (- 3) (- 2)], Ffmpeg ''RIFF''],
      frame_pipe = None\<rparr>"
  by (simp add: recovered_def post_nan_then_clean)

lemma reachable_recovered: "reachable recovered"
  unfolding recovered_def by (rule reachable.post [OF reachable_started])

theorem one_pipeline_per_code_witness:
  "reachable recovered \<and>
   prefix (take 10 (trace recovered) @ [Construct (Pipeline 10 ''a'')]) (trace recovered) \<and>
   owned_at (take 10 (trace recovered)) = [] \<and>
   lang (Pipeline 10 ''a'') \<notin> set (map lang (owned_at (take 10 (trace recovered)))) \<and>
   distinct (map lang (owned_at (take 10 (trace recovered) @ [Construct (Pipeline 10 ''a'')]))) \<and>
   map snd (pipelines recovered) = owned_at (trace recovered) \<and>
   distinct (map fst (pipelines recovered)) \<and>
   list_all (\<lambda>kv. lang (snd kv) = fst kv) (pipelines recovered)"
proof -
  note r = one_pipeline_per_code [OF reachable_recovered]
  have p: "prefix (take 10 (trace recovered) @ [Construct (Pipeline 10 ''a'')]) (trace recovered)"
    by (simp add: recovered_eq)
  have l: "owned_at (take 10 (trace recovered)) = []"
    by (simp add: recovered_eq owned_at_def)
  have a: "lang (Pipeline 10 ''a'') \<notin> set (map lang (owned_at (take 10 (trace recovered))))"
    using r p by blast
  have b: "distinct (map lang (owned_at (take 10 (trace recovered) @ [Construct (Pipeline 10 ''a'')])))"
    using r p by blast
  show ?thesis
    using r p l a b reachable_recovered by blast
qed

text \<open>
  The objects themselves: in a recovery, when the call of \<open>get_pipeline\<close> on line 89 returns
  the new pipeline, the variable \<open>pipe\<close> of \<open>generate_mp3\<close> still refers to the evicted one.
  Two pipeline objects of the code \<open>a\<close> exist at that point.
\<close>

lemma mid_recovery_eq:
  "mid_recovery =
     \<lparr>pipelines = [(''a'', Pipeline 10 ''a'')], nan_recoveries = 0,
      trace = [GetPipeline ''a'', Construct (Pipeline 1 ''a''),
               LoadVoice (Pipeline 1 ''a'') ''af_alloy'',
               WarmupPass (Pipeline 1 ''a'') (VoiceTensor 0), ReadBody 36, GetPipeline ''a'',
               LoadVoice (Pipeline 1 ''a'') ''af_heart'',
               RunInference (Pipeline 1 ''a'') (JStr ''hi'') (VoiceTensor 0),
               Evict ''a'', GetPipeline ''a'', Construct (Pipeline 10 ''a''),
               LoadVoice (Pipeline 10 ''a'') ''af_alloy'',
               WarmupPass (Pipeline 10 ''a'') (VoiceTensor 0)],
      frame_pipe = Some (Pipeline 1 ''a'')\<rparr>"
  by (simp add: mid_recovery_def started_eq world_defs run_defs Let_def)

theorem one_pipeline_per_code_counterexample:
  "reachable started \<and>
   accepted (scripted body_hi nan_then_clean) tts_request 36 (JStr ''hi'') ''af_heart'' \<and>
   fst (attempt (scripted body_hi nan_then_clean) (log (ReadBody 36) started)
          ''a'' (JStr ''hi'') ''af_heart'') = Inr (Pipeline 1 ''a'', [Finite 1 0, NaN]) \<and>
   list_ex isnan [Finite 1 0, NaN] \<and>
   fst (get_pipeline (scripted body_hi nan_then_clean)
          (evict ''a'' (snd (attempt (scripted body_hi nan_then_clean) (log (ReadBody 36) started)
                               ''a'' (JStr ''hi'') ''af_heart'')))
          ''a'') = Inr (Pipeline 10 ''a'') \<and>
   map_of (pipelines mid_recovery) ''a'' = Some (Pipeline 10 ''a'') \<and>
   frame_pipe mid_recovery = Some (Pipeline 1 ''a'') \<and>
   referenced mid_recovery = [Pipeline 10 ''a'', Pipeline 1 ''a''] \<and>
   map lang (referenced mid_recovery) = [''a'', ''a'']"
  using reachable_started
  by (simp add: accepted_example first_attempt_example script_defs mid_recovery_eq referenced_def)
     (simp add: started_eq world_defs run_defs Let_def)

text \<open>
  C9. When the cache has no pipeline for the code and the constructor returns, then in every
  world, whatever \<open>load_voice\<close> and the warmup pass return or raise, \<open>get_pipeline\<close>
  returns the new pipeline, the cache holds it under the code, and the recovery counter is
  untouched. The warmup was started with the default voice of the code (\<open>af_alloy\<close> for a
  code without one); nothing it produced is part of the result.
\<close>

theorem warmup_best_effort:
  assumes "map_of (pipelines s) lc = None"
    and "ext_KPipeline w (trace s @ [GetPipeline lc]) lc = None"
  shows "fst (get_pipeline w s lc) = Inr (Pipeline (Suc (length (trace s))) lc) \<and>
         pipelines (snd (get_pipeline w s lc))
           = pipelines s @ [(lc, Pipeline (Suc (length (trace s))) lc)] \<and>
         map_of (pipelines (snd (get_pipeline w s lc))) lc
           = Some (Pipeline (Suc (length (trace s))) lc) \<and>
         nan_recoveries (snd (get_pipeline w s lc)) = nan_recoveries s \<and>
         (\<exists>rest. trace (snd (get_pipeline w s lc))
            = trace s @ GetPipeline lc # Construct (Pipeline (Suc (length (trace s))) lc)
                # LoadVoice (Pipeline (Suc (length (trace s))) lc)
                    (case map_of warmup_voices lc of Some v \<Rightarrow> v | None \<Rightarrow> ''af_alloy'')
                # rest)"
proof -
  let ?p = "Pipeline (Suc (length (trace s))) lc"
  from get_pipeline_new [OF assms] obtain s' ws where
    g: "get_pipeline w s lc = (Inr ?p, s')"
    and pl: "pipelines s' = pipelines s @ [(lc, ?p)]"
    and nr: "nan_recoveries s' = nan_recoveries s"
    by blast
  have m: "map_of (pipelines s') lc = Some ?p"
    using assms(1) by (simp add: pl map_add_def)
  have t: "\<exists>rest. trace (snd (get_pipeline w s lc))
            = trace s @ GetPipeline lc # Construct ?p
                # LoadVoice ?p (case map_of warmup_voices lc of Some v \<Rightarrow> v | None \<Rightarrow> ''af_alloy'')
                # rest"
    using assms
    by (auto simp: get_pipeline_def Let_def warmup_try_def pipe_load_voice_def split: sum.splits)
  show ?thesis
    using g pl nr m t by simp
qed

theorem warmup_best_effort_witness:
  "map_of (pipelines init_state) ''a'' = None \<and>
   ext_KPipeline failing_warmup (trace init_state @ [GetPipeline ''a'']) ''a'' = None \<and>
   fst (warmup_try failing_warmup
          (log (Construct (Pipeline 1 ''a'')) (log (GetPipeline ''a'') init_state))
          (Pipeline 1 ''a'') ''af_alloy'') = Some (Exn ''RuntimeError'' ''warmup failed'') \<and>
   fst (get_pipeline failing_warmup init_state ''a'') = Inr (Pipeline 1 ''a'') \<and>
   map_of (pipelines (snd (get_pipeline failing_warmup init_state ''a''))) ''a''
     = Some (Pipeline 1 ''a'')"
proof -
  have h1: "map_of (pipelines init_state) ''a'' = None"
    by (simp add: init_state_def)
  have h2: "ext_KPipeline failing_warmup (trace init_state @ [GetPipeline ''a'']) ''a'' = None"
    by (simp add: failing_warmup_def scripted_def)
  have e: "fst (warmup_try failing_warmup
          (log (Construct (Pipeline 1 ''a'')) (log (GetPipeline ''a'') init_state))
          (Pipeline 1 ''a'') ''af_alloy'') = Some (Exn ''RuntimeError'' ''warmup failed'')"
    by (simp add: failing_warmup_def scripted_def warmup_try_def pipe_load_voice_def)
  from warmup_best_effort [OF h1 h2] h1 h2 e show ?thesis
    by (simp add: init_state_def)
qed

section \<open>The language code of a voice\<close>

lemma quiet_uses_code: "list_all quiet evs \<Longrightarrow> list_all (uses_code lc) evs"
proof (induction evs)
  case Nil
  then show ?case by simp
next
  case (Cons e evs)
  then show ?case by (cases e) auto
qed

lemma get_pipeline_code:
  "\<exists>evs. trace (snd (get_pipeline w s lc)) = trace s @ GetPipeline lc # evs \<and>
     list_all (uses_code lc) evs \<and>
     (\<forall>c. c \<noteq> lc \<longrightarrow> map_of (pipelines (snd (get_pipeline w s lc))) c = map_of (pipelines s) c)"
proof (cases "map_of (pipelines s) lc")
  case (Some p)
  then show ?thesis by (simp add: get_pipeline_cached)
next
  case None
  show ?thesis
  proof (cases "ext_KPipeline w (trace s @ [GetPipeline lc]) lc")
    case (Some e)
    with None show ?thesis by (simp add: get_pipeline_failed)
  next
    case None2: None
    from get_pipeline_new [OF None None2] show ?thesis
      by (auto simp: quiet_uses_code map_add_def split: option.splits)
  qed
qed

lemma attempt_code:
  "\<exists>evs. trace (snd (attempt w s lc t v)) = trace s @ GetPipeline lc # evs \<and>
     list_all (uses_code lc) evs \<and>
     (\<forall>c. c \<noteq> lc \<longrightarrow> map_of (pipelines (snd (attempt w s lc t v))) c = map_of (pipelines s) c)"
proof -
  obtain r1 s1 where g: "get_pipeline w s lc = (r1, s1)"
    by (cases "get_pipeline w s lc")
  obtain evs where e: "trace s1 = trace s @ GetPipeline lc # evs" "list_all (uses_code lc) evs"
    "\<forall>c. c \<noteq> lc \<longrightarrow> map_of (pipelines s1) c = map_of (pipelines s) c"
    using get_pipeline_code [of w s lc] g by auto
  show ?thesis
    using g e
    by (auto simp: attempt_def pipe_load_voice_def run_inference_def split: sum.splits)
qed

lemma audio_to_mp3_code:
  "\<exists>evs. trace (snd (audio_to_mp3 w s a)) = trace s @ evs \<and> list_all (uses_code lc) evs \<and>
     pipelines (snd (audio_to_mp3 w s a)) = pipelines s"
  using audio_to_mp3_fields [of w s a] by (auto simp: quiet_uses_code)

lemma generate_mp3_code:
  "\<exists>evs. trace (snd (generate_mp3 w s t (c # r))) = trace s @ GetPipeline [c] # evs \<and>
     list_all (uses_code [c]) evs \<and>
     (\<forall>k. k \<noteq> [c] \<longrightarrow> map_of (pipelines (snd (generate_mp3 w s t (c # r)))) k = map_of (pipelines s) k)"
proof -
  obtain r1 s1 where a1: "attempt w s [c] t (c # r) = (r1, s1)"
    by (cases "attempt w s [c] t (c # r)")
  obtain evs1 where e1: "trace s1 = trace s @ GetPipeline [c] # evs1" "list_all (uses_code [c]) evs1"
    "\<forall>k. k \<noteq> [c] \<longrightarrow> map_of (pipelines s1) k = map_of (pipelines s) k"
    using attempt_code [of w s "[c]" t "c # r"] a1 by auto
  obtain r2 s2 where a2: "attempt w (evict [c] s1) [c] t (c # r) = (r2, s2)"
    by (cases "attempt w (evict [c] s1) [c] t (c # r)")
  obtain evs2 where e2: "trace s2 = trace s1 @ Evict [c] # GetPipeline [c] # evs2"
    "list_all (uses_code [c]) evs2"
    "\<forall>k. k \<noteq> [c] \<longrightarrow> map_of (pipelines s2) k = map_of (pipelines (evict [c] s1)) k"
    using attempt_code [of w "evict [c] s1" "[c]" t "c # r"] a2 by auto
  have k2: "\<forall>k. k \<noteq> [c] \<longrightarrow> map_of (pipelines s2) k = map_of (pipelines s) k"
    using e1(3) e2(3) by (simp add: delete_conv')
  have e3: "\<And>a. \<exists>evs3. trace (snd (audio_to_mp3 w s1 a)) = trace s1 @ evs3 \<and>
      list_all (uses_code [c]) evs3 \<and> pipelines (snd (audio_to_mp3 w s1 a)) = pipelines s1"
    using audio_to_mp3_code [of w s1 _ "[c]"] by blast
  let ?s3 = "s2\<lparr>nan_recoveries := nan_recoveries s2 + 1\<rparr>"
  have e4: "\<And>a. \<exists>evs4. trace (snd (audio_to_mp3 w ?s3 a)) = trace s2 @ evs4 \<and>
      list_all (uses_code [c]) evs4 \<and> pipelines (snd (audio_to_mp3 w ?s3 a)) = pipelines s2"
    using audio_to_mp3_code [of w ?s3 _ "[c]"] by simp
  show ?thesis
  proof (cases r1)
    case (Inl e)
    then show ?thesis using e1 by (simp add: generate_mp3_attempts a1)
  next
    case (Inr pa)
    obtain p a where pa: "pa = (p, a)" by (cases pa)
    show ?thesis
    proof (cases "list_ex isnan a")
      case False
      from e3 [of a] obtain evs3 where
        "trace (snd (audio_to_mp3 w s1 a)) = trace s1 @ evs3" "list_all (uses_code [c]) evs3"
        "pipelines (snd (audio_to_mp3 w s1 a)) = pipelines s1" by blast
      then show ?thesis
        using False Inr pa e1 by (simp add: generate_mp3_attempts a1)
    next
      case True
      show ?thesis
      proof (cases r2)
        case Inl2: (Inl e)
        then show ?thesis
          using True Inr pa e1 e2 k2 by (simp add: generate_mp3_attempts a1 a2)
      next
        case Inr2: (Inr pa')
        obtain p' a' where pa': "pa' = (p', a')" by (cases pa')
        from e4 [of a'] obtain evs4 where
          "trace (snd (audio_to_mp3 w ?s3 a')) = trace s2 @ evs4" "list_all (uses_code [c]) evs4"
          "pipelines (snd (audio_to_mp3 w ?s3 a')) = pipelines s2" by blast
        then show ?thesis
          using True Inr pa Inr2 pa' e1 e2 k2 by (simp add: generate_mp3_attempts a1 a2)
      qed
    qed
  qed
qed

text \<open>
  C4, with the first character in place of the first character pair. For a request that
  passes the checks with the voice \<open>v\<close>, the language code is the one-character string
  \<open>take 1 v\<close>: the request calls \<open>get_pipeline\<close> with it, every call of \<open>get_pipeline\<close>,
  construction and eviction of the request is for that code, and the cache entries of all
  other codes are what they were.
\<close>

theorem language_code_is_first_character:
  assumes acc: "accepted w req n text v"
  shows "length (take 1 v) = 1 \<and>
         GetPipeline (take 1 v) \<in> set (new_events s (snd (do_POST w s req))) \<and>
         list_all (uses_code (take 1 v)) (new_events s (snd (do_POST w s req))) \<and>
         (\<forall>k. k \<noteq> take 1 v \<longrightarrow>
            map_of (pipelines (snd (do_POST w s req))) k = map_of (pipelines s) k)"
proof -
  obtain c r where v: "v = c # r"
    using accepted_voice [OF acc] by blast
  let ?s0 = "log (ReadBody n) s"
  have post: "do_POST w s req = respond (generate_mp3 w ?s0 text v)"
    by (rule do_POST_accepted [OF acc])
  obtain evs where e: "trace (snd (generate_mp3 w ?s0 text (c # r))) = trace ?s0 @ GetPipeline [c] # evs"
    "list_all (uses_code [c]) evs"
    "\<forall>k. k \<noteq> [c] \<longrightarrow> map_of (pipelines (snd (generate_mp3 w ?s0 text (c # r)))) k = map_of (pipelines ?s0) k"
    using generate_mp3_code [of w ?s0 "text" c r] by blast
  have tr: "trace (snd (do_POST w s req)) = trace s @ ReadBody n # GetPipeline [c] # evs"
    using e(1) by (simp add: post v)
  show ?thesis
    using e(2) e(3) by (simp add: new_events_append [OF tr]) (simp add: post v)
qed

lemma post_emma:
  "do_POST (scripted body_emma always_clean) started tts_request =
    (AudioResponse ''ID3'',
     \<lparr>pipelines = [(''a'', Pipeline 1 ''a''), (''b'', Pipeline 6 ''b'')], nan_recoveries = 0,
      trace = [GetPipeline ''a'', Construct (Pipeline 1 ''a''),
               LoadVoice (Pipeline 1 ''a'') ''af_alloy'',
               WarmupPass (Pipeline 1 ''a'') (VoiceTensor 0), ReadBody 36, GetPipeline ''b'',
               Construct (Pipeline 6 ''b''),
               LoadVoice (Pipeline 6 ''b'') ''bf_emma'',
               WarmupPass (Pipeline 6 ''b'') (VoiceTensor 0),
               LoadVoice (Pipeline 6 ''b'') ''bf_emma'',
               RunInference (Pipeline 6 ''b'') (JStr ''hi'') (VoiceTensor 0),
               SfWrite [Finite 1 0, Finite (- 3) (- 2)], Ffmpeg ''RIFF''],
      frame_pipe = None\<rparr>)"
  by (simp add: started_eq world_defs body_emma_def run_defs py_int_defs Let_def)

lemma accepted_emma:
  "accepted (scripted body_emma outs) tts_request 36 (JStr ''hi'') ''bf_emma''"
  by (simp add: world_defs body_emma_def run_defs py_int_defs)

theorem language_code_is_first_character_witness:
  "accepted (scripted body_emma always_clean) tts_request 36 (JStr ''hi'') ''bf_emma'' \<and>
   take 1 ''bf_emma'' = ''b'' \<and>
   GetPipeline ''b'' \<in> set (new_events started (snd (do_POST (scripted body_emma always_clean) started tts_request))) \<and>
   list_all (uses_code ''b'')
     (new_events started (snd (do_POST (scripted body_emma always_clean) started tts_request))) \<and>
   map_of (pipelines (snd (do_POST (scripted body_emma always_clean) started tts_request))) ''a''
     = map_of (pipelines started) ''a''"
proof -
  let ?w = "scripted body_emma always_clean"
  have acc: "accepted ?w tts_request 36 (JStr ''hi'') ''bf_emma''"
    by (rule accepted_emma)
  note r = language_code_is_first_character [OF acc, of started]
  have t: "take 1 ''bf_emma'' = ''b''" by simp
  have a: "GetPipeline ''b'' \<in> set (new_events started (snd (do_POST ?w started tts_request)))"
    using r unfolding t by blast
  have b: "list_all (uses_code ''b'') (new_events started (snd (do_POST ?w started tts_request)))"
    using r unfolding t by blast
  have "''a'' \<noteq> take 1 ''bf_emma''" by simp
  with r have c: "map_of (pipelines (snd (do_POST ?w started tts_request))) ''a''
     = map_of (pipelines started) ''a''"
    by blast
  show ?thesis using acc t a b c by blast
qed

theorem language_code_counterexample:
  "accepted (scripted body_emma always_clean) tts_request 36 (JStr ''hi'') ''bf_emma'' \<and>
   take 2 ''bf_emma'' = ''bf'' \<and>
   map fst (pipelines (snd (do_POST (scripted body_emma always_clean) started tts_request)))
     = [''a'', ''b''] \<and>
   map_of (pipelines (snd (do_POST (scripted body_emma always_clean) started tts_request))) ''bf''
     = None \<and>
   GetPipeline ''b'' \<in> set (new_events started (snd (do_POST (scripted body_emma always_clean) started tts_request))) \<and>
   GetPipeline ''bf'' \<notin> set (new_events started (snd (do_POST (scripted body_emma always_clean) started tts_request)))"
  by (simp add: accepted_emma post_emma) (simp add: started_eq new_events_def)

section \<open>The checks of POST /tts\<close>

text \<open>
  C10, restricted to the values the checks reject by type. Take a POST /tts request of
  admissible size whose body is read and decodes to a JSON object. If \<open>text\<close> is truthy
  and has no length (a number or a boolean), or if \<open>text\<close> passes the emptiness and length
  checks and \<open>voice\<close> is not a string, then the checks (lines 121 to 146) raise an exception
  of class TypeError before any synthesis, and the handler answers 500 with the message of
  that exception; nothing but the body read has happened. A non-empty list or object as
  \<open>text\<close> has a length: the type of \<open>text\<close> alone does not make the checks fail.
\<close>

theorem type_error_is_500:
  assumes r1: "path req = ''/tts''"
    and r2: "header_length (content_length req) = Some n"
    and r3: "n \<le> MAX_BODY_SIZE"
    and rd: "rfile_read req n = Inr data"
    and body: "ext_json_loads w data = Inr body"
    and t: "dict_get body ''text'' (JStr '''') = Inr text"
    and vo: "dict_get body ''voice'' (JStr ''af_heart'') = Inr voice"
    and tr: "truthy text"
    and bad: "(\<exists>e. py_len text = Inl e) \<or>
              ((\<exists>k. py_len text = Inr k \<and> k \<le> MAX_TEXT_LENGTH) \<and> \<not> is_str voice)"
  shows "\<exists>e. exn_class e = ''TypeError'' \<and>
             tts_body w (log (ReadBody n) s) body = (Inl e, log (ReadBody n) s) \<and>
             do_POST w s req = (json_error 500 (exn_str e), log (ReadBody n) s)"
proof -
  have post: "do_POST w s req =
      (case tts_body w (log (ReadBody n) s) body of
         (Inl e, s2) \<Rightarrow> (json_error 500 (exn_str e), s2)
       | (Inr resp, s2) \<Rightarrow> (resp, s2))"
    using r1 r2 r3 rd body by (simp add: do_POST_def Let_def)
  from bad show ?thesis
  proof
    assume "\<exists>e. py_len text = Inl e"
    then obtain e where e: "py_len text = Inl e" by blast
    have c: "exn_class e = ''TypeError''"
      using e by (cases "text") auto
    have b: "tts_body w (log (ReadBody n) s) body = (Inl e, log (ReadBody n) s)"
      using t vo tr e by (simp add: tts_body_def)
    show ?thesis
      using c b by (intro exI [of _ e]) (simp add: post)
  next
    assume a: "(\<exists>k. py_len text = Inr k \<and> k \<le> MAX_TEXT_LENGTH) \<and> \<not> is_str voice"
    then obtain k where k: "py_len text = Inr k" "k \<le> MAX_TEXT_LENGTH" by blast
    let ?e = "Exn ''TypeError''
             (''expected string or bytes-like object, got '' @ [CHR 0x27] @ type_name voice @ [CHR 0x27])"
    have b: "tts_body w (log (ReadBody n) s) body = (Inl ?e, log (ReadBody n) s)"
      using t vo tr k a by (cases voice) (simp_all add: tts_body_def)
    show ?thesis
      using b by (intro exI [of _ ?e]) (simp add: post)
  qed
qed

lemma json_loads_scripted [simp]: "ext_json_loads (scripted body outs) b = Inr body"
  by (simp add: scripted_def)

lemma read_tts_request: "rfile_read tts_request 36 = Inr (rfile tts_request)"
  by (simp add: rfile_read_def tts_request_def)

theorem type_error_is_500_witness:
  "path tts_request = ''/tts'' \<and>
   header_length (content_length tts_request) = Some 36 \<and>
   36 \<le> MAX_BODY_SIZE \<and>
   rfile_read tts_request 36 = Inr (rfile tts_request) \<and>
   ext_json_loads (scripted body_number_text always_clean) (rfile tts_request)
     = Inr body_number_text \<and>
   dict_get body_number_text ''text'' (JStr '''') = Inr (JInt 5) \<and>
   truthy (JInt 5) \<and>
   py_len (JInt 5) = Inl (Exn ''TypeError'' (''object of type '' @ [CHR 0x27] @ ''int'' @ [CHR 0x27] @ '' has no len()'')) \<and>
   tts_body (scripted body_number_text always_clean) (log (ReadBody 36) started) body_number_text
     = (Inl (Exn ''TypeError'' (''object of type '' @ [CHR 0x27] @ ''int'' @ [CHR 0x27] @ '' has no len()'')),
        log (ReadBody 36) started) \<and>
   do_POST (scripted body_number_text always_clean) started tts_request
     = (JsonResponse 500 (JDict [(''error'',
          JStr (''object of type '' @ [CHR 0x27] @ ''int'' @ [CHR 0x27] @ '' has no len()''))]),
        log (ReadBody 36) started)"
proof -
  let ?w = "scripted body_number_text always_clean"
  let ?e = "Exn ''TypeError'' (''object of type '' @ [CHR 0x27] @ ''int'' @ [CHR 0x27] @ '' has no len()'')"
  have r1: "path tts_request = ''/tts''" by (simp add: tts_request_def)
  have r2: "header_length (content_length tts_request) = Some 36"
    by (simp add: tts_request_def header_length_def py_int_defs)
  have r3: "36 \<le> MAX_BODY_SIZE" by (simp add: MAX_BODY_SIZE_def)
  have rd: "rfile_read tts_request 36 = Inr (rfile tts_request)" by (rule read_tts_request)
  have body: "ext_json_loads ?w (rfile tts_request) = Inr body_number_text" by simp
  have t: "dict_get body_number_text ''text'' (JStr '''') = Inr (JInt 5)"
    by (simp add: body_number_text_def)
  have vo: "dict_get body_number_text ''voice'' (JStr ''af_heart'') = Inr (JStr ''af_heart'')"
    by (simp add: body_number_text_def)
  have tr: "truthy (JInt 5)" by simp
  have l: "py_len (JInt 5) = Inl ?e"
    by simp
  have bad: "(\<exists>e. py_len (JInt 5) = Inl e) \<or>
              ((\<exists>k. py_len (JInt 5) = Inr k \<and> k \<le> MAX_TEXT_LENGTH) \<and> \<not> is_str (JStr ''af_heart''))"
    by simp
  from type_error_is_500 [OF r1 r2 r3 rd body t vo tr bad, of started]
  obtain e where e: "exn_class e = ''TypeError''"
    "tts_body ?w (log (ReadBody 36) started) body_number_text = (Inl e, log (ReadBody 36) started)"
    "do_POST ?w started tts_request = (json_error 500 (exn_str e), log (ReadBody 36) started)"
    by blast
  have tb: "tts_body ?w (log (ReadBody 36) started) body_number_text = (Inl ?e, log (ReadBody 36) started)"
    by (simp add: tts_body_def body_number_text_def)
  with e(2) have "e = ?e" by simp
  with e(3) have p: "do_POST ?w started tts_request
     = (JsonResponse 500 (JDict [(''error'',
          JStr (''object of type '' @ [CHR 0x27] @ ''int'' @ [CHR 0x27] @ '' has no len()''))]),
        log (ReadBody 36) started)"
    by (simp add: json_error_def)
  show ?thesis
    using r1 r2 r3 rd body t tr l tb p by blast
qed

theorem type_error_counterexample:
  "path tts_request = ''/tts'' \<and>
   header_length (content_length tts_request) = Some 36 \<and>
   rfile_read tts_request 36 = Inr (rfile tts_request) \<and>
   ext_json_loads (scripted body_list_text always_clean) (rfile tts_request) = Inr body_list_text \<and>
   dict_get body_list_text ''text'' (JStr '''') = Inr (JList [JStr ''hi'']) \<and>
   truthy (JList [JStr ''hi'']) \<and>
   \<not> is_str (JList [JStr ''hi'']) \<and>
   fst (do_POST (scripted body_list_text always_clean) started tts_request) = AudioResponse ''ID3''"
  by (simp add: started_eq world_defs body_list_text_def run_defs py_int_defs Let_def)

text \<open>A request that passes the checks is answered with the audio or with a 500, not a 400.\<close>

lemma accepted_not_400:
  "accepted w req n text v \<Longrightarrow> fst (do_POST w s req) \<noteq> json_error 400 msg"
  by (simp add: do_POST_accepted respond_def json_error_def split: prod.splits sum.splits)

lemma post_newline_voice:
  "do_POST (scripted body_newline_voice always_clean) started tts_request =
    (AudioResponse ''ID3'',
     \<lparr>pipelines = [(''a'', Pipeline 1 ''a'')], nan_recoveries = 0,
      trace = [GetPipeline ''a'', Construct (Pipeline 1 ''a''),
               LoadVoice (Pipeline 1 ''a'') ''af_alloy'',
               WarmupPass (Pipeline 1 ''a'') (VoiceTensor 0), ReadBody 36, GetPipeline ''a'',
               LoadVoice (Pipeline 1 ''a'') (''af_heart'' @ [CHR 0x0A]),
               RunInference (Pipeline 1 ''a'') (JStr ''hi'') (VoiceTensor 0),
               SfWrite [Finite 1 0, Finite (- 3) (- 2)], Ffmpeg ''RIFF''],
      frame_pipe = None\<rparr>)"
  by (simp add: started_eq world_defs body_newline_voice_def run_defs py_int_defs char_class_defs Let_def)

text \<open>
  C6 at the voice \<open>af_heart\<close> followed by a newline. The string is not of the form the
  pattern describes, yet \<open>VOICE_PATTERN.match\<close> accepts it, since \<open>$\<close> also matches before
  a final newline: an otherwise valid request with this voice is not answered 400, it runs
  an inference and is answered with the audio.
\<close>

theorem newline_voice_reaches_synthesis:
  "\<not> voice_wellformed (''af_heart'' @ [CHR 0x0A]) \<and>
   VOICE_PATTERN_match (''af_heart'' @ [CHR 0x0A]) \<and>
   rfile_read tts_request 36 = Inr (rfile tts_request) \<and>
   ext_json_loads (scripted body_newline_voice always_clean) (rfile tts_request)
     = Inr (JDict [(''text'', JStr ''hi''), (''voice'', JStr (''af_heart'' @ [CHR 0x0A]))]) \<and>
   fst (do_POST (scripted body_newline_voice always_clean) started tts_request) = AudioResponse ''ID3'' \<and>
   inference_calls (new_events started
     (snd (do_POST (scripted body_newline_voice always_clean) started tts_request))) = 1"
  by (simp add: post_newline_voice read_tts_request)
     (simp add: started_eq new_events_def inference_calls_def voice_wellformed_def
        VOICE_PATTERN_match_def char_class_defs body_newline_voice_def)

text \<open>Every voice that \<open>VOICE_PATTERN.match\<close> rejects is answered 400, before any synthesis.\<close>

lemma invalid_voice_400:
  assumes "path req = ''/tts''"
    and "header_length (content_length req) = Some n"
    and "n \<le> MAX_BODY_SIZE"
    and "rfile_read req n = Inr data"
    and "ext_json_loads w data = Inr body"
    and "dict_get body ''text'' (JStr '''') = Inr text"
    and "dict_get body ''voice'' (JStr ''af_heart'') = Inr (JStr v)"
    and "truthy text"
    and "py_len text = Inr k" and "k \<le> MAX_TEXT_LENGTH"
    and "\<not> VOICE_PATTERN_match v"
  shows "do_POST w s req = (json_error 400 (''Invalid voice name: '' @ v), log (ReadBody n) s)"
  using assms by (simp add: do_POST_def tts_body_def Let_def)

text \<open>The final newline is the only difference between the two readings of the pattern.\<close>

lemma not_word_newline: "\<not> is_word (CHR 0x0A)"
  by (simp add: char_class_defs)

lemma VOICE_PATTERN_match_iff:
  "VOICE_PATTERN_match v \<longleftrightarrow>
     voice_wellformed v \<or> (\<exists>u. v = u @ [CHR 0x0A] \<and> voice_wellformed u)"
proof
  assume m: "VOICE_PATTERN_match v"
  then obtain a b u rest where v: "v = a # b # u # rest"
    and h: "is_lower a" "is_lower b" "u = CHR ''_''" "takeWhile is_word rest \<noteq> []"
    and d: "dropWhile is_word rest = [] \<or> dropWhile is_word rest = [CHR 0x0A]"
    by (auto simp: VOICE_PATTERN_match_def split: list.splits)
  from d show "voice_wellformed v \<or> (\<exists>u. v = u @ [CHR 0x0A] \<and> voice_wellformed u)"
  proof
    assume "dropWhile is_word rest = []"
    then have "list_all is_word rest" "rest \<noteq> []"
      using h(4) by (auto simp: list_all_iff)
    then show ?thesis using v h by (simp add: voice_wellformed_def)
  next
    assume e: "dropWhile is_word rest = [CHR 0x0A]"
    have r: "rest = takeWhile is_word rest @ [CHR 0x0A]"
      using takeWhile_dropWhile_id [of is_word rest] e by simp
    have "list_all is_word (takeWhile is_word rest)"
      by (auto simp: list_all_iff dest: set_takeWhileD)
    then have "voice_wellformed (a # b # u # takeWhile is_word rest)"
      using h by (simp add: voice_wellformed_def)
    moreover have "v = (a # b # u # takeWhile is_word rest) @ [CHR 0x0A]"
      using v r by simp
    ultimately show ?thesis by blast
  qed
next
  assume "voice_wellformed v \<or> (\<exists>u. v = u @ [CHR 0x0A] \<and> voice_wellformed u)"
  then show "VOICE_PATTERN_match v"
  proof
    assume "voice_wellformed v"
    then obtain a b u rest where v: "v = a # b # u # rest"
      and h: "is_lower a" "is_lower b" "u = CHR ''_''" "rest \<noteq> []" "list_all is_word rest"
      by (auto simp: voice_wellformed_def split: list.splits)
    have tw: "takeWhile is_word rest = rest" and dw: "dropWhile is_word rest = []"
      using h(5) by (auto simp: list_all_iff)
    show ?thesis
      unfolding v VOICE_PATTERN_match_def list.case tw dw using h by simp
  next
    assume "\<exists>u. v = u @ [CHR 0x0A] \<and> voice_wellformed u"
    then obtain w where w: "v = w @ [CHR 0x0A]" "voice_wellformed w" by blast
    then obtain a b u rest where v: "w = a # b # u # rest"
      and h: "is_lower a" "is_lower b" "u = CHR ''_''" "rest \<noteq> []" "list_all is_word rest"
      by (auto simp: voice_wellformed_def split: list.splits)
    have t: "takeWhile is_word (rest @ [CHR 0x0A]) = rest"
      using h(5) not_word_newline by (simp add: takeWhile_append list_all_iff)
    have d: "dropWhile is_word (rest @ [CHR 0x0A]) = [CHR 0x0A]"
      using h(5) not_word_newline by (simp add: dropWhile_append list_all_iff)
    have "v = a # b # u # (rest @ [CHR 0x0A])"
      using w v by simp
    then show ?thesis
      unfolding VOICE_PATTERN_match_def using h t d by (simp only: list.case) simp
  qed
qed

section \<open>The voice listing\<close>

lemmas listing_defs = listing_def scripted_def voices_request_def do_GET_def list_voices_def
  voices_of_def endswith_def startswith_def suffix_to_prefix log_def

text \<open>
  C5 at a directory that holds \<open>af_sky.pt.pt\<close>. \<open>GET /voices\<close> and \<open>POST /voices\<close> list
  the file as \<open>af_sky\<close>: \<open>replace\<close> removes every \<open>.pt\<close> of a name, where stripping the
  suffix would leave \<open>af_sky.pt\<close>.
\<close>

theorem voices_replace_removes_inner_pt:
  "do_GET (listing [''af_sky.pt.pt'', ''.hidden.pt'', ''notes.txt'', ''af_heart.pt'']) started voices_request
     = (Inr (JsonResponse 200 (JDict [(''voices'', JList [JStr ''af_heart'', JStr ''af_sky''])])),
        log Listdir started) \<and>
   fst (do_POST (listing [''af_sky.pt.pt'', ''.hidden.pt'', ''notes.txt'', ''af_heart.pt'']) started voices_request)
     = JsonResponse 200 (JDict [(''voices'', JList [JStr ''af_heart'', JStr ''af_sky''])]) \<and>
   strip_suffix_pt ''af_sky.pt.pt'' = ''af_sky.pt''"
  by (simp add: listing_defs do_POST_def strip_suffix_pt_def)

text \<open>
  Apart from that the listing is as C5 describes it: it is sorted, no entry starts with a
  dot, and a name without a dot before its suffix is listed without the suffix.
\<close>

lemma voices_sorted: "sorted (voices_of files)"
  by (simp add: voices_of_def)

lemma str_replace_keeps_head:
  "c \<noteq> CHR ''.'' \<Longrightarrow> \<exists>r. str_replace ''.pt'' '''' (c # cs) = c # r"
  by simp

lemma voices_not_hidden:
  assumes "v \<in> set (voices_of files)"
  shows "\<not> startswith v ''.''"
proof -
  from assms obtain f where f: "f \<in> set files" "endswith f ''.pt''" "\<not> startswith f ''.''"
    "v = str_replace ''.pt'' '''' f"
    by (auto simp: voices_of_def)
  from f(2) obtain c cs where fc: "f = c # cs"
    by (cases f) (auto simp: endswith_def)
  with f(3) have "c \<noteq> CHR ''.''"
    by (simp add: startswith_def)
  from str_replace_keeps_head [OF this, of cs] obtain r where "str_replace ''.pt'' '''' (c # cs) = c # r"
    by blast
  with f(4) fc \<open>c \<noteq> CHR ''.''\<close> show ?thesis
    by (simp add: startswith_def)
qed

lemma str_replace_dotfree:
  "CHR ''.'' \<notin> set b \<Longrightarrow> str_replace ''.pt'' '''' (b @ ''.pt'') = b"
  by (induction b) auto

lemma dotfree_file:
  assumes "b \<noteq> []" "CHR ''.'' \<notin> set b"
  shows "endswith (b @ ''.pt'') ''.pt'' \<and> \<not> startswith (b @ ''.pt'') ''.'' \<and>
         str_replace ''.pt'' '''' (b @ ''.pt'') = strip_suffix_pt (b @ ''.pt'')"
proof -
  obtain c cs where b: "b = c # cs" using assms(1) by (cases b) auto
  have "c \<noteq> CHR ''.''" using assms(2) b by auto
  then have "\<not> startswith (b @ ''.pt'') ''.''"
    by (simp add: startswith_def b)
  moreover have "endswith (b @ ''.pt'') ''.pt''"
    unfolding endswith_def by (rule suffixI) simp
  moreover have "strip_suffix_pt (b @ ''.pt'') = b"
    by (simp add: strip_suffix_pt_def)
  ultimately show ?thesis
    using str_replace_dotfree [OF assms(2)] by simp
qed

lemma voices_of_dotfree:
  assumes "\<forall>f \<in> set files. \<exists>b. f = b @ ''.pt'' \<and> b \<noteq> [] \<and> CHR ''.'' \<notin> set b"
  shows "voices_of files = sort (map strip_suffix_pt files)"
proof -
  have a: "\<forall>f \<in> set files. endswith f ''.pt'' \<and> \<not> startswith f ''.'' \<and>
             str_replace ''.pt'' '''' f = strip_suffix_pt f"
  proof
    fix f assume "f \<in> set files"
    with assms obtain b where "f = b @ ''.pt''" "b \<noteq> []" "CHR ''.'' \<notin> set b" by blast
    then show "endswith f ''.pt'' \<and> \<not> startswith f ''.'' \<and>
             str_replace ''.pt'' '''' f = strip_suffix_pt f"
      using dotfree_file [of b] by blast
  qed
  have f: "filter (\<lambda>f. endswith f ''.pt'' \<and> \<not> startswith f ''.'') files = files"
    using a by (simp add: filter_id_conv)
  have m: "map (\<lambda>f. str_replace ''.pt'' '''' f) files = map strip_suffix_pt files"
    using a by simp
  show ?thesis
    unfolding voices_of_def f m ..
qed

section \<open>The size guard of POST /tts\<close>

text \<open>
  What \<open>int\<close> makes of a header: a unit separator after the digits is not whitespace for
  it, a no-break space is; a sign is read. A length below \<open>-1\<close> passes the size guard and
  fails in \<open>rfile.read\<close>, which the outer handler turns into a 500.
\<close>

lemma py_int_unit_separator: "py_int (''1000001'' @ [CHR 0x1F]) = None"
  by (simp add: py_int_defs)

lemma py_int_no_break_space: "py_int (''1000001'' @ [CHR 0xA0]) = Some 1000001"
  by (simp add: py_int_defs)

lemma py_int_negative: "py_int ''-2'' = Some (- 2)"
  by (simp add: py_int_defs)

lemma unit_separator_400:
  "do_POST w s (length_request (''1000001'' @ [CHR 0x1F])) = (json_error 400 ''Invalid Content-Length'', s)"
  by (simp add: do_POST_def length_request_def header_length_def py_int_defs)

lemma no_break_space_413:
  "do_POST w s (length_request (''1000001'' @ [CHR 0xA0])) = (json_error 413 ''Request too large'', s)"
  by (simp add: do_POST_def length_request_def header_length_def py_int_defs MAX_BODY_SIZE_def)

lemma negative_length_500:
  assumes "path req = ''/tts''"
    and "header_length (content_length req) = Some n"
    and "n < - 1"
  shows "do_POST w s req
           = (json_error 500 ''read length must be non-negative or -1'', log (ReadBody n) s)"
  using assms by (simp add: do_POST_def rfile_read_def MAX_BODY_SIZE_def Let_def)

lemma negative_length_not_accepted: "n < - 1 \<Longrightarrow> \<not> accepted w req n text v"
  by (simp add: accepted_def rfile_read_def)

text \<open>
  C7. A POST /tts request whose Content-Length header \<open>int\<close> reads as an integer above
  1,000,000 is answered 413 with the JSON body \<open>{"error": "Request too large"}\<close>, and the
  process state, log included, is what it was: no \<open>rfile.read\<close> took place.
\<close>

theorem oversized_body_413:
  assumes "path req = ''/tts''"
    and "header_length (content_length req) = Some n"
    and "MAX_BODY_SIZE < n"
  shows "do_POST w s req = (json_error 413 ''Request too large'', s)"
  using assms by (simp add: do_POST_def)

theorem oversized_body_413_witness:
  "path huge_request = ''/tts'' \<and>
   header_length (content_length huge_request) = Some 1000001 \<and>
   MAX_BODY_SIZE < 1000001 \<and>
   do_POST (scripted body_hi always_clean) init_state huge_request
     = (JsonResponse 413 (JDict [(''error'', JStr ''Request too large'')]), init_state)"
proof -
  have p: "path huge_request = ''/tts''"
    by (simp add: huge_request_def)
  have h: "header_length (content_length huge_request) = Some 1000001"
    by (simp add: huge_request_def header_length_def py_int_defs)
  have m: "MAX_BODY_SIZE < 1000001"
    by (simp add: MAX_BODY_SIZE_def)
  from oversized_body_413 [OF p h m, of "scripted body_hi always_clean" init_state] p h m
  show ?thesis by (simp add: json_error_def)
qed

end
